theory Spec2Isabelle
  imports Main "HOL-Library.Sublist"
begin

section \<open>Strings\<close>

text \<open>
  JavaScript strings are modelled as HOL strings. The model is exact for ASCII file
  names; code units allowAboveRoot 127 are carried through unchanged.
\<close>

text \<open>\<open>String.prototype.split\<close> with a one-character separator: empty pieces are kept.\<close>

fun split_on :: "char \<Rightarrow> string \<Rightarrow> string list" where
  "split_on d [] = [[]]"
| "split_on d (c # cs) =
     (if c = d then [] # split_on d cs
      else (case split_on d cs of w # ws \<Rightarrow> (c # w) # ws | [] \<Rightarrow> [[c]]))"

text \<open>\<open>Array.prototype.join\<close>.\<close>

fun join_with :: "string \<Rightarrow> string list \<Rightarrow> string" where
  "join_with sep [] = []"
| "join_with sep [w] = w"
| "join_with sep (w # ws) = w @ sep @ join_with sep ws"

section \<open>The \<open>path\<close> module (POSIX flavour)\<close>

text \<open>
  \<open>path.dirname\<close>, \<open>path.join\<close>, \<open>path.resolve\<close>, \<open>path.extname\<close> and
  \<open>path.basename\<close> belong to the Node.js runtime, not to this repository. They are
  modelled after the POSIX implementation of the runtime (\<open>lib/path.js\<close>), with
  \<open>/\<close> as the only separator.
\<close>

text \<open>
  \<open>normalizeString\<close>, segment by segment: empty and \<open>.\<close> segments vanish, \<open>..\<close>
  removes the segment before it, and is kept only where nothing is left to remove and
  the path is relative (\<open>allowAboveRoot\<close>). The accumulator holds the result reversed.
\<close>

fun norm_segs :: "bool \<Rightarrow> string list \<Rightarrow> string list \<Rightarrow> string list" where
  "norm_segs allowAboveRoot acc [] = rev acc"
| "norm_segs allowAboveRoot acc (s # ss) =
     (if s = [] \<or> s = ''.'' then norm_segs allowAboveRoot acc ss
      else if s = ''..'' then
        (case acc of
           [] \<Rightarrow> norm_segs allowAboveRoot (if allowAboveRoot then [''..''] else []) ss
         | t # ts \<Rightarrow>
             if t \<noteq> ''..'' then norm_segs allowAboveRoot ts ss
             else norm_segs allowAboveRoot (if allowAboveRoot then ''..'' # acc else acc) ss)
      else norm_segs allowAboveRoot (s # acc) ss)"

definition normalizeString :: "string \<Rightarrow> bool \<Rightarrow> string" where
  "normalizeString p allowAboveRoot = join_with ''/'' (norm_segs allowAboveRoot [] (split_on CHR ''/'' p))"

definition path_normalize :: "string \<Rightarrow> string" where
  "path_normalize p =
     (if p = [] then ''.''
      else
        let isAbsolute = (hd p = CHR ''/'');
            trailingSeparator = (last p = CHR ''/'');
            q = normalizeString p (\<not> isAbsolute)
        in if q = [] then (if isAbsolute then ''/'' else if trailingSeparator then ''./'' else ''.'')
           else (if isAbsolute then ''/'' else []) @ q @ (if trailingSeparator then ''/'' else []))"

text \<open>\<open>path.join(a, b)\<close>: the non-empty arguments, joined by \<open>/\<close>, normalized.\<close>

definition path_join :: "string \<Rightarrow> string \<Rightarrow> string" where
  "path_join a b =
     (let joined = (if a = [] then b else if b = [] then a else a @ ''/'' @ b)
      in if joined = [] then ''.'' else path_normalize joined)"

text \<open>
  \<open>path.dirname\<close>: the runtime scans from the right over the characters at index 1 and
  allowAboveRoot, skips trailing slashes, then the last component, and cuts at the slash before it.
\<close>

definition path_dirname :: "string \<Rightarrow> string" where
  "path_dirname p =
     (if p = [] then ''.''
      else
        let hasRoot = (hd p = CHR ''/'');
            r1 = dropWhile (\<lambda>c. c = CHR ''/'') (rev (tl p));
            r2 = dropWhile (\<lambda>c. c \<noteq> CHR ''/'') r1
        in (case r2 of
              [] \<Rightarrow> (if hasRoot then ''/'' else ''.'')
            | _ # r3 \<Rightarrow> if hasRoot \<and> r3 = [] then ''//'' else hd p # rev r3))"

text \<open>
  \<open>path.resolve(p)\<close> with the working directory \<open>wd\<close> of the process: a relative
  \<open>p\<close> is put behind \<open>wd\<close>, and the result is normalized without a trailing slash.
\<close>

definition path_resolve :: "string \<Rightarrow> string \<Rightarrow> string" where
  "path_resolve wd p =
     (let r1 = (if p = [] then [] else p @ ''/'');
          abs1 = (p \<noteq> [] \<and> hd p = CHR ''/'');
          r2 = (if abs1 \<or> wd = [] then r1 else wd @ ''/'' @ r1);
          abs2 = (abs1 \<or> (wd \<noteq> [] \<and> hd wd = CHR ''/''));
          q = normalizeString r2 (\<not> abs2)
      in if abs2 then CHR ''/'' # q else if q \<noteq> [] then q else ''.'')"

section \<open>The filesystem\<close>

text \<open>
  The \<open>fs/promises\<close> calls of the source are awaited one after the other, so the
  filesystem is a state passed from call to call. A \<open>world\<close> holds the working
  directory of the process, the filesystem nodes under their resolved paths, the calls
  that are going to fail for a reason outside the modelled state (another device, missing
  permissions, an I/O error) with the error code the operating system reports, and the
  trace of the calls made so far.
\<close>

datatype errno =
  ENOENT | EXDEV | EEXIST | EACCES | EPERM | EISDIR | ENOTDIR | ENOTEMPTY
  | EBUSY | EROFS | ENOSPC | EIO | EMFILE | ELOOP | ENAMETOOLONG | EINVAL

fun errno_name :: "errno \<Rightarrow> string" where
  "errno_name ENOENT = ''ENOENT''"
| "errno_name EXDEV = ''EXDEV''"
| "errno_name EEXIST = ''EEXIST''"
| "errno_name EACCES = ''EACCES''"
| "errno_name EPERM = ''EPERM''"
| "errno_name EISDIR = ''EISDIR''"
| "errno_name ENOTDIR = ''ENOTDIR''"
| "errno_name ENOTEMPTY = ''ENOTEMPTY''"
| "errno_name EBUSY = ''EBUSY''"
| "errno_name EROFS = ''EROFS''"
| "errno_name ENOSPC = ''ENOSPC''"
| "errno_name EIO = ''EIO''"
| "errno_name EMFILE = ''EMFILE''"
| "errno_name ELOOP = ''ELOOP''"
| "errno_name ENAMETOOLONG = ''ENAMETOOLONG''"
| "errno_name EINVAL = ''EINVAL''"

datatype fsop =
  Mkdir string | Access string | Unlink string | Rename string string | CopyFile string string

fun fsop_text :: "fsop \<Rightarrow> string" where
  "fsop_text (Mkdir p) = ''mkdir '' @ p"
| "fsop_text (Access p) = ''access '' @ p"
| "fsop_text (Unlink p) = ''unlink '' @ p"
| "fsop_text (Rename a b) = ''rename '' @ a @ '' -> '' @ b"
| "fsop_text (CopyFile a b) = ''copyfile '' @ a @ '' -> '' @ b"

text \<open>
  A thrown value, as far as the source looks at it: the \<open>code\<close> property, which only
  system errors carry, and the \<open>message\<close>. The message of a system error starts with its
  code.
\<close>

record js_error =
  code :: "errno option"
  message :: string

definition sys_error :: "errno \<Rightarrow> fsop \<Rightarrow> js_error" where
  "sys_error e op = \<lparr>code = Some e, message = errno_name e @ '': '' @ fsop_text op\<rparr>"

datatype node = File string | Dir

record world =
  cwd :: string
  nodes :: "string \<Rightarrow> node option"
  faults :: "fsop \<Rightarrow> errno option"
  trace :: "fsop list"

definition logged :: "fsop \<Rightarrow> world \<Rightarrow> world" where
  "logged op w = w\<lparr>trace := trace w @ [op]\<rparr>"

text \<open>The resolved path of a directory and of each of its ancestors, outermost first.\<close>

definition ancestors :: "string \<Rightarrow> string list" where
  "ancestors r =
     (let parts = split_on CHR ''/'' r
      in map (\<lambda>k. join_with ''/'' (take k parts)) [2..<Suc (length parts)])"

fun mkdirs :: "string list \<Rightarrow> (string \<Rightarrow> node option) \<Rightarrow> errno + (string \<Rightarrow> node option)" where
  "mkdirs [] ns = Inr ns"
| "mkdirs (q # qs) ns =
     (case ns q of
        Some (File c) \<Rightarrow> Inl (if qs = [] then EEXIST else ENOTDIR)
      | _ \<Rightarrow> mkdirs qs (ns(q \<mapsto> Dir)))"

text \<open>\<open>fs.mkdir(dir, { recursive: true })\<close>: an existing directory is not an error.\<close>

definition fs_mkdir :: "string \<Rightarrow> world \<Rightarrow> (js_error + unit) \<times> world" where
  "fs_mkdir dir w =
     (let op = Mkdir dir; w1 = logged op w
      in case faults w op of
           Some e \<Rightarrow> (Inl (sys_error e op), w1)
         | None \<Rightarrow>
             (case mkdirs (ancestors (path_resolve (cwd w) dir)) (nodes w) of
                Inl e \<Rightarrow> (Inl (sys_error e op), w1)
              | Inr ns \<Rightarrow> (Inr (), w1\<lparr>nodes := ns\<rparr>)))"

text \<open>\<open>fs.access(p)\<close>: succeeds when something exists at \<open>p\<close>.\<close>

definition fs_access :: "string \<Rightarrow> world \<Rightarrow> (js_error + unit) \<times> world" where
  "fs_access p w =
     (let op = Access p; w1 = logged op w
      in case faults w op of
           Some e \<Rightarrow> (Inl (sys_error e op), w1)
         | None \<Rightarrow>
             (case nodes w (path_resolve (cwd w) p) of
                None \<Rightarrow> (Inl (sys_error ENOENT op), w1)
              | Some n \<Rightarrow> (Inr (), w1)))"

text \<open>\<open>fs.unlink(p)\<close>: removes a file.\<close>

definition fs_unlink :: "string \<Rightarrow> world \<Rightarrow> (js_error + unit) \<times> world" where
  "fs_unlink p w =
     (let op = Unlink p; w1 = logged op w; r = path_resolve (cwd w) p
      in case faults w op of
           Some e \<Rightarrow> (Inl (sys_error e op), w1)
         | None \<Rightarrow>
             (case nodes w r of
                None \<Rightarrow> (Inl (sys_error ENOENT op), w1)
              | Some Dir \<Rightarrow> (Inl (sys_error EISDIR op), w1)
              | Some (File c) \<Rightarrow> (Inr (), w1\<lparr>nodes := (nodes w)(r := None)\<rparr>)))"

text \<open>
  \<open>fs.rename(a, b)\<close>: the node at \<open>a\<close> moves to \<open>b\<close> and replaces a file there. The
  entries below a renamed directory are not tracked.
\<close>

definition fs_rename :: "string \<Rightarrow> string \<Rightarrow> world \<Rightarrow> (js_error + unit) \<times> world" where
  "fs_rename a b w =
     (let op = Rename a b; w1 = logged op w;
          ra = path_resolve (cwd w) a; rb = path_resolve (cwd w) b
      in case faults w op of
           Some e \<Rightarrow> (Inl (sys_error e op), w1)
         | None \<Rightarrow>
             (case nodes w ra of
                None \<Rightarrow> (Inl (sys_error ENOENT op), w1)
              | Some (File c) \<Rightarrow>
                  (case nodes w rb of
                     Some Dir \<Rightarrow> (Inl (sys_error EISDIR op), w1)
                   | _ \<Rightarrow> (Inr (), w1\<lparr>nodes := (nodes w)(ra := None, rb \<mapsto> File c)\<rparr>))
              | Some Dir \<Rightarrow>
                  (case nodes w rb of
                     Some (File c) \<Rightarrow> (Inl (sys_error ENOTDIR op), w1)
                   | _ \<Rightarrow> (Inr (), w1\<lparr>nodes := (nodes w)(ra := None, rb \<mapsto> Dir)\<rparr>))))"

text \<open>\<open>fs.copyFile(a, b)\<close>: \<open>b\<close> gets the content of the file \<open>a\<close>.\<close>

definition fs_copyFile :: "string \<Rightarrow> string \<Rightarrow> world \<Rightarrow> (js_error + unit) \<times> world" where
  "fs_copyFile a b w =
     (let op = CopyFile a b; w1 = logged op w;
          ra = path_resolve (cwd w) a; rb = path_resolve (cwd w) b
      in case faults w op of
           Some e \<Rightarrow> (Inl (sys_error e op), w1)
         | None \<Rightarrow>
             (case nodes w ra of
                None \<Rightarrow> (Inl (sys_error ENOENT op), w1)
              | Some Dir \<Rightarrow> (Inl (sys_error EISDIR op), w1)
              | Some (File c) \<Rightarrow>
                  (case nodes w rb of
                     Some Dir \<Rightarrow> (Inl (sys_error EISDIR op), w1)
                   | _ \<Rightarrow> (Inr (), w1\<lparr>nodes := (nodes w)(rb \<mapsto> File c)\<rparr>))))"

section \<open>The move executor (\<open>src/renamer.ts\<close>)\<close>

text \<open>
  \<open>RenameOptions\<close>. The optional fields are options; \<open>apply\<close> is a keyword of
  Isabelle, so the field is called \<open>applyFlag\<close>.
\<close>

record RenameOptions =
  applyFlag :: bool
  dryRun :: "bool option"
  replace :: "bool option"
  targetDir :: "string option"

text \<open>JavaScript truthiness of the two kinds of optional field.\<close>

definition truthy_bool :: "bool option \<Rightarrow> bool" where
  "truthy_bool b = (b = Some True)"

definition truthy_string :: "string option \<Rightarrow> bool" where
  "truthy_string s = (case s of None \<Rightarrow> False | Some x \<Rightarrow> x \<noteq> [])"

definition ensureDir :: "string \<Rightarrow> world \<Rightarrow> (js_error + unit) \<times> world" where
  "ensureDir dir w = fs_mkdir dir w"

definition destination_exists_error :: "string \<Rightarrow> js_error" where
  "destination_exists_error newPath =
     \<lparr>code = None, message = ''Destination exists and --replace not set: '' @ newPath\<rparr>"

text \<open>
  The first \<open>try\<close> block of \<open>renameFile\<close> (lines 76 to 93): the body runs up to its
  first throw, and the \<open>catch\<close> clause decides what becomes of the thrown value.
\<close>

definition check_destination :: "string \<Rightarrow> RenameOptions \<Rightarrow> world \<Rightarrow> (js_error + unit) \<times> world" where
  "check_destination newPath options w =
     (let body =
        (case fs_access newPath w of
           (Inl err, w1) \<Rightarrow> (Inl err, w1)
         | (Inr u, w1) \<Rightarrow>
             if \<not> truthy_bool (replace options)
             then (Inl (destination_exists_error newPath), w1)
             else fs_unlink newPath w1)
      in case body of
           (Inr u, w2) \<Rightarrow> (Inr (), w2)
         | (Inl err, w2) \<Rightarrow>
             if code err = Some ENOENT then (Inr (), w2)
             else if message err \<noteq> [] \<and> prefix ''Destination exists'' (message err)
             then (Inl err, w2)
             else (Inr (), w2))"

text \<open>The second \<open>try\<close> block (lines 96 to 108): rename, and copy and unlink on \<open>EXDEV\<close>.\<close>

definition move_file :: "string \<Rightarrow> string \<Rightarrow> world \<Rightarrow> (js_error + string) \<times> world" where
  "move_file originalPath newPath w =
     (case fs_rename originalPath newPath w of
        (Inr u, w1) \<Rightarrow> (Inr newPath, w1)
      | (Inl err, w1) \<Rightarrow>
          if code err = Some EXDEV then
            (case fs_copyFile originalPath newPath w1 of
               (Inl err2, w2) \<Rightarrow> (Inl err2, w2)
             | (Inr u, w2) \<Rightarrow>
                 (case fs_unlink originalPath w2 of
                    (Inl err3, w3) \<Rightarrow> (Inl err3, w3)
                  | (Inr u, w3) \<Rightarrow> (Inr newPath, w3)))
          else (Inl err, w1))"

definition renameFile :: "string \<Rightarrow> string \<Rightarrow> RenameOptions \<Rightarrow> world \<Rightarrow> (js_error + string) \<times> world" where
  "renameFile originalPath newBasename options w =
     (let origDir = path_dirname originalPath;
          destDir = (if truthy_string (targetDir options) then the (targetDir options) else origDir);
          newPath = path_join destDir newBasename
      in if path_resolve (cwd w) originalPath = path_resolve (cwd w) newPath then (Inr newPath, w)
         else if \<not> applyFlag options then (Inr newPath, w)
         else
           (case ensureDir destDir w of
              (Inl err, w1) \<Rightarrow> (Inl err, w1)
            | (Inr u, w1) \<Rightarrow>
                (case check_destination newPath options w1 of
                   (Inl err, w2) \<Rightarrow> (Inl err, w2)
                 | (Inr u, w2) \<Rightarrow> move_file originalPath newPath w2)))"

section \<open>Character classes\<close>

text \<open>
  The classes of the regular expressions, on ASCII: \<open>.\<close> is every character but a line
  terminator, \<open>\d\<close> a decimal digit, \<open>\s\<close> white space (tab, line feed, vertical tab,
  form feed, carriage return, space).
\<close>

definition is_line_terminator :: "char \<Rightarrow> bool" where
  "is_line_terminator c = (c \<in> {CHR 0x0A, CHR 0x0D})"

definition dot :: "char \<Rightarrow> bool" where
  "dot c = (\<not> is_line_terminator c)"

definition is_digit :: "char \<Rightarrow> bool" where
  "is_digit c = (c \<in> set ''0123456789'')"

definition is_space :: "char \<Rightarrow> bool" where
  "is_space c = (c \<in> {CHR 0x09, CHR 0x0A, CHR 0x0B, CHR 0x0C, CHR 0x0D, CHR '' ''})"

text \<open>The class \<open>[. _\-]\<close> between title and token.\<close>

definition is_sep :: "char \<Rightarrow> bool" where
  "is_sep c = (c \<in> {CHR ''.'', CHR '' '', CHR ''_'', CHR ''-''})"

section \<open>Regular expressions with backtracking\<close>

text \<open>
  The fragment of ECMAScript regular expressions that the parser uses: classes,
  sequence, alternative, capturing groups, and greedy or lazy repetition of a class
  between bounds (\<open>None\<close> is no upper bound). None of the patterns has a group under a
  repetition or under an alternative.
\<close>

datatype regex =
  Cls "char \<Rightarrow> bool"
  | Cat regex regex
  | Alt regex regex
  | Grp regex
  | Greedy "char \<Rightarrow> bool" nat "nat option"
  | Lazy "char \<Rightarrow> bool" nat "nat option"

text \<open>How many characters of the class a repetition can take at the front of \<open>s\<close>.\<close>

definition run_length :: "(char \<Rightarrow> bool) \<Rightarrow> nat option \<Rightarrow> string \<Rightarrow> nat" where
  "run_length P hi s =
     (let n = length (takeWhile P s) in case hi of None \<Rightarrow> n | Some h \<Rightarrow> min h n)"

text \<open>
  \<open>matches re s\<close> lists the ways \<open>re\<close> matches at the front of \<open>s\<close>, in the order in
  which a backtracking matcher tries them: each way with the captures of its groups (in
  the order of their opening parentheses) and the rest of the input. A greedy repetition
  tries the longest run first, a lazy one the shortest.
\<close>

fun matches :: "regex \<Rightarrow> string \<Rightarrow> (string list \<times> string) list" where
  "matches (Cls P) s = (case s of [] \<Rightarrow> [] | c # cs \<Rightarrow> if P c then [([], cs)] else [])"
| "matches (Cat a b) s =
     concat (map (\<lambda>(ca, r). map (\<lambda>(cb, r'). (ca @ cb, r')) (matches b r)) (matches a s))"
| "matches (Alt a b) s = matches a s @ matches b s"
| "matches (Grp a) s = map (\<lambda>(ca, r). (take (length s - length r) s # ca, r)) (matches a s)"
| "matches (Greedy P lo hi) s = map (\<lambda>j. ([], drop j s)) (rev [lo..<Suc (run_length P hi s)])"
| "matches (Lazy P lo hi) s = map (\<lambda>j. ([], drop j s)) [lo..<Suc (run_length P hi s)]"

text \<open>
  \<open>String.prototype.match\<close> with a pattern without the \<open>g\<close> flag: the first way to
  match at the leftmost possible start. The result is the array \<open>m\<close> of the source:
  \<open>m[0]\<close> is the matched text, \<open>m[1]\<close> and up are the groups; \<open>None\<close> is \<open>null\<close>.
\<close>

fun exec :: "regex \<Rightarrow> string \<Rightarrow> string list option" where
  "exec re s =
     (case matches re s of
        (caps, r) # others \<Rightarrow> Some (take (length s - length r) s # caps)
      | [] \<Rightarrow> (case s of [] \<Rightarrow> None | c # cs \<Rightarrow> exec re cs))"

definition Chr :: "char \<Rightarrow> regex" where
  "Chr c = Cls (\<lambda>x. x = c)"

section \<open>The filename parser (\<open>parser.ts\<close>)\<close>

datatype MediaType = TV | Movie

text \<open>
  \<open>ParsedMedia\<close> (\<open>types.ts\<close>). The field \<open>type\<close> is called \<open>mediaType\<close> here. The
  optional numbers are options of integers.
\<close>

record ParsedMedia =
  mediaType :: MediaType
  title :: string
  season :: "int option"
  episode :: "int option"
  year :: "int option"
  ext :: string
  originalName :: string

text \<open>\<open>s.replace(/[class]+/g, " ")\<close>: every maximal run of the class becomes one space.\<close>

function replace_runs :: "(char \<Rightarrow> bool) \<Rightarrow> string \<Rightarrow> string" where
  "replace_runs P [] = []"
| "replace_runs P (c # cs) =
     (if P c then CHR '' '' # replace_runs P (dropWhile P cs) else c # replace_runs P cs)"
  by pat_completeness auto
termination
  by (relation "measure (\<lambda>(P, s). length s)") (auto simp: le_imp_less_Suc length_dropWhile_le)

definition trim :: "string \<Rightarrow> string" where
  "trim s = rev (dropWhile is_space (rev (dropWhile is_space s)))"

definition cleanTitle :: "string \<Rightarrow> string" where
  "cleanTitle raw =
     trim (replace_runs is_space
       (replace_runs (\<lambda>c. c = CHR ''-'')
         (replace_runs (\<lambda>c. c \<in> {CHR ''.'', CHR ''_''}) raw)))"

text \<open>\<open>toUpperCase\<close> of one character, on ASCII.\<close>

definition toUpperCase :: "char \<Rightarrow> char" where
  "toUpperCase c =
     (case map_of (zip ''abcdefghijklmnopqrstuvwxyz'' ''ABCDEFGHIJKLMNOPQRSTUVWXYZ'') c of
        None \<Rightarrow> c
      | Some u \<Rightarrow> u)"

definition titleCase :: "string \<Rightarrow> string" where
  "titleCase s =
     join_with '' ''
       (map (\<lambda>w. case w of [] \<Rightarrow> w | c # cs \<Rightarrow> toUpperCase c # cs) (split_on CHR '' '' s))"

text \<open>The last component of a path: trailing slashes do not count.\<close>

definition last_component :: "string \<Rightarrow> string" where
  "last_component p =
     rev (takeWhile (\<lambda>c. c \<noteq> CHR ''/'') (dropWhile (\<lambda>c. c = CHR ''/'') (rev p)))"

text \<open>
  \<open>path.extname\<close>: from the last dot of the last component to its end; empty when there
  is no dot, when the last dot is the first character of the component, and for \<open>..\<close>.
\<close>

definition path_extname :: "string \<Rightarrow> string" where
  "path_extname p =
     (let c = last_component p;
          e = rev (takeWhile (\<lambda>x. x \<noteq> CHR ''.'') (rev c));
          stem = take (length c - length e - 1) c
      in if CHR ''.'' \<notin> set c \<or> stem = [] \<or> c = ''..'' then [] else CHR ''.'' # e)"

text \<open>
  \<open>path.basename(p, suffix)\<close>: the last component, without the suffix when the component
  ends with it and is longer. The last but one case is what the runtime does when the
  whole component is the end of a longer suffix: the trailing slashes stay.
\<close>

definition path_basename :: "string \<Rightarrow> string \<Rightarrow> string" where
  "path_basename p sfx =
     (let c = last_component p
      in if sfx = [] \<or> length p < length sfx then c
         else if sfx = p then []
         else if sfx = c then c
         else if suffix sfx c then take (length c - length sfx) c
         else if suffix c sfx then c @ takeWhile (\<lambda>x. x = CHR ''/'') (rev p)
         else c)"

text \<open>
  \<open>parseInt(s, 10)\<close>: white space, a sign, then the longest run of digits; \<open>None\<close> is
  \<open>NaN\<close>.
\<close>

definition digit_value :: "char \<Rightarrow> nat" where
  "digit_value c = (case map_of (zip ''0123456789'' [0, 1, 2, 3, 4, 5, 6, 7, 8, 9]) c of
                      None \<Rightarrow> 0 | Some d \<Rightarrow> d)"

definition digits_value :: "string \<Rightarrow> nat" where
  "digits_value ds = foldl (\<lambda>a c. 10 * a + digit_value c) 0 ds"

definition parseInt :: "string \<Rightarrow> int option" where
  "parseInt s =
     (let t = dropWhile is_space s;
          negative = (t \<noteq> [] \<and> hd t = CHR ''-'');
          u = (if t \<noteq> [] \<and> hd t \<in> {CHR ''-'', CHR ''+''} then tl t else t);
          ds = takeWhile is_digit u
      in if ds = [] then None
         else Some (if negative then - int (digits_value ds) else int (digits_value ds)))"

text \<open>The three patterns of \<open>parseFilename\<close>.\<close>

definition tvRegex1 :: regex where
  "tvRegex1 =
     Cat (Grp (Lazy dot 1 None))
       (Cat (Greedy is_sep 0 None)
         (Cat (Cls (\<lambda>c. c \<in> {CHR ''s'', CHR ''S''}))
           (Cat (Grp (Greedy is_digit 1 (Some 2)))
             (Cat (Cls (\<lambda>c. c \<in> {CHR ''e'', CHR ''E''}))
               (Grp (Greedy is_digit 2 (Some 2)))))))"

definition tvRegex2 :: regex where
  "tvRegex2 =
     Cat (Grp (Lazy dot 1 None))
       (Cat (Greedy is_sep 0 None)
         (Cat (Grp (Greedy is_digit 1 (Some 2)))
           (Cat (Cls (\<lambda>c. c \<in> {CHR ''x'', CHR ''X''}))
             (Grp (Greedy is_digit 2 (Some 2))))))"

definition movieRegex :: regex where
  "movieRegex =
     Cat (Grp (Lazy dot 1 None))
       (Cat (Greedy is_sep 0 None)
         (Cat (Greedy (\<lambda>c. c = CHR ''('') 0 (Some 1))
           (Cat (Grp (Cat (Grp (Alt (Cat (Chr CHR ''1'') (Chr CHR ''9''))
                                    (Cat (Chr CHR ''2'') (Chr CHR ''0''))))
                          (Greedy is_digit 2 (Some 2))))
             (Greedy (\<lambda>c. c = CHR '')'') 0 (Some 1)))))"

definition parseFilename :: "string \<Rightarrow> ParsedMedia option" where
  "parseFilename fullname =
     (let ext = path_extname fullname;
          name = path_basename fullname ext
      in case (case exec tvRegex1 name of Some m \<Rightarrow> Some m | None \<Rightarrow> exec tvRegex2 name) of
           Some m \<Rightarrow>
             Some \<lparr>mediaType = TV, title = titleCase (cleanTitle (m ! 1)),
                   season = parseInt (m ! 2), episode = parseInt (m ! 3),
                   year = None, ext = ext, originalName = name\<rparr>
         | None \<Rightarrow>
             (case exec movieRegex name of
                Some m \<Rightarrow>
                  Some \<lparr>mediaType = Movie, title = titleCase (cleanTitle (m ! 1)),
                        season = None, episode = None,
                        year = parseInt (m ! 2), ext = ext, originalName = name\<rparr>
              | None \<Rightarrow>
                  (let cleaned = titleCase (cleanTitle name)
                   in if length cleaned > 0
                      then Some \<lparr>mediaType = Movie, title = cleaned,
                                 season = None, episode = None,
                                 year = None, ext = ext, originalName = name\<rparr>
                      else None)))"

section \<open>The filename generator (\<open>src/renamer.ts\<close>)\<close>

text \<open>The decimal notation of a number, as a template string renders an integer.\<close>

fun nat_digits :: "nat \<Rightarrow> string" where
  "nat_digits n =
     (if n < 10 then [''0123456789'' ! n] else nat_digits (n div 10) @ [''0123456789'' ! (n mod 10)])"

definition number_text :: "int \<Rightarrow> string" where
  "number_text i = (if i < 0 then CHR ''-'' # nat_digits (nat (- i)) else nat_digits (nat i))"

definition pad2 :: "int option \<Rightarrow> string" where
  "pad2 n =
     (case n of
        None \<Rightarrow> ''00''
      | Some i \<Rightarrow> if i < 10 then ''0'' @ number_text i else number_text i)"

definition generateFilename :: "ParsedMedia \<Rightarrow> string" where
  "generateFilename parsed =
     (let e = ext parsed
      in if mediaType parsed = TV then
           title parsed @ '' - S'' @ pad2 (season parsed) @ ''E'' @ pad2 (episode parsed) @ e
         else if (case year parsed of None \<Rightarrow> False | Some y \<Rightarrow> y \<noteq> 0) then
           title parsed @ '' ('' @ number_text (the (year parsed)) @ '')'' @ e
         else title parsed @ e)"

section \<open>Notions used in the properties of the parser\<close>

text \<open>What a digit group of the TV patterns can hold, and what the year group can hold.\<close>

definition digit_group :: "string \<Rightarrow> bool" where
  "digit_group d = (d \<noteq> [] \<and> length d \<le> 2 \<and> (\<forall>x\<in>set d. is_digit x))"

definition year_group :: "string \<Rightarrow> bool" where
  "year_group y = (\<exists>a b. is_digit a \<and> is_digit b \<and> (y = ''19'' @ [a, b] \<or> y = ''20'' @ [a, b]))"

text \<open>
  The three patterns start with the same lazy title group \<open>(.+?)\<close>. What follows it is
  the token of the pattern: separators and the season and episode markers, or the year.
\<close>

definition tvToken1 :: regex where
  "tvToken1 =
     Cat (Greedy is_sep 0 None)
       (Cat (Cls (\<lambda>c. c \<in> {CHR ''s'', CHR ''S''}))
         (Cat (Grp (Greedy is_digit 1 (Some 2)))
           (Cat (Cls (\<lambda>c. c \<in> {CHR ''e'', CHR ''E''}))
             (Grp (Greedy is_digit 2 (Some 2))))))"

definition tvToken2 :: regex where
  "tvToken2 =
     Cat (Greedy is_sep 0 None)
       (Cat (Grp (Greedy is_digit 1 (Some 2)))
         (Cat (Cls (\<lambda>c. c \<in> {CHR ''x'', CHR ''X''}))
           (Grp (Greedy is_digit 2 (Some 2)))))"

definition movieToken :: regex where
  "movieToken =
     Cat (Greedy is_sep 0 None)
       (Cat (Greedy (\<lambda>c. c = CHR ''('') 0 (Some 1))
         (Cat (Grp (Cat (Grp (Alt (Cat (Chr CHR ''1'') (Chr CHR ''9''))
                                  (Cat (Chr CHR ''2'') (Chr CHR ''0''))))
                        (Greedy is_digit 2 (Some 2))))
           (Greedy (\<lambda>c. c = CHR '')'') 0 (Some 1))))"

text \<open>
  The first position of \<open>s\<close>, counted from 1 so that a title of at least one character
  comes before it, at which the token matches; \<open>None\<close> when there is none.
\<close>

definition first_token :: "regex \<Rightarrow> string \<Rightarrow> nat option" where
  "first_token tok s = find (\<lambda>j. matches tok (drop j s) \<noteq> []) [1..<Suc (length s)]"

section \<open>Example inputs\<close>

text \<open>
  A working directory \<open>/media\<close> with a source file \<open>in/a.mkv\<close> and a file
  \<open>out/b.mkv\<close> that is in the way, and no failing call.
\<close>

definition example_world :: world where
  "example_world =
     \<lparr>cwd = ''/media'',
      nodes = [''/media/in/a.mkv'' \<mapsto> File ''AAA'', ''/media/out/b.mkv'' \<mapsto> File ''BBB''],
      faults = (\<lambda>op. None),
      trace = []\<rparr>"

definition example_options :: "bool \<Rightarrow> bool \<Rightarrow> RenameOptions" where
  "example_options a r =
     \<lparr>applyFlag = a, dryRun = None, replace = Some r, targetDir = Some ''out''\<rparr>"

text \<open>The example world with one call that fails with the given error code.\<close>

definition failing_world :: "fsop \<Rightarrow> errno \<Rightarrow> world" where
  "failing_world op e = example_world\<lparr>faults := (\<lambda>x. if x = op then Some e else None)\<rparr>"

text \<open>Three records in normalized form: an episode, a movie with its year, a plain title.\<close>

definition example_episode :: ParsedMedia where
  "example_episode =
     \<lparr>mediaType = TV, title = ''Show Name'', season = Some 1, episode = Some 2,
      year = None, ext = ''.mkv'', originalName = ''Show.Name.S01E02''\<rparr>"

definition example_movie :: ParsedMedia where
  "example_movie =
     \<lparr>mediaType = Movie, title = ''Movie Name'', season = None, episode = None,
      year = Some 2007, ext = ''.mkv'', originalName = ''Movie.Name.2007''\<rparr>"

definition example_plain :: ParsedMedia where
  "example_plain =
     \<lparr>mediaType = Movie, title = ''Randomfile'', season = None, episode = None,
      year = None, ext = ''.txt'', originalName = ''randomfile''\<rparr>"

text \<open>A movie whose title ends with a number that reads as a year, and a late episode.\<close>

definition example_sequel :: ParsedMedia where
  "example_sequel =
     \<lparr>mediaType = Movie, title = ''Blade Runner 2049'', season = None, episode = None,
      year = Some 2017, ext = ''.mkv'', originalName = ''Blade.Runner.2049.2017''\<rparr>"

definition example_late_episode :: ParsedMedia where
  "example_late_episode =
     \<lparr>mediaType = TV, title = ''Show'', season = Some 1, episode = Some 100,
      year = None, ext = ''.mkv'', originalName = ''Show.S01E100''\<rparr>"

text \<open>
  The example world on two devices with a full destination: the rename fails with
  \<open>EXDEV\<close> and the copy with \<open>ENOSPC\<close>.
\<close>

definition full_disk_world :: world where
  "full_disk_world =
     example_world\<lparr>faults :=
       (\<lambda>x. if x = Rename ''in/a.mkv'' ''out/b.mkv'' then Some EXDEV
            else if x = CopyFile ''in/a.mkv'' ''out/b.mkv'' then Some ENOSPC
            else None)\<rparr>"

section \<open>Evaluation rules\<close>

lemmas path_defs =
  path_dirname_def path_join_def path_normalize_def normalizeString_def path_resolve_def

lemmas fs_defs =
  fs_mkdir_def fs_access_def fs_unlink_def fs_rename_def fs_copyFile_def
  logged_def ancestors_def sys_error_def

lemmas example_defs =
  example_world_def example_options_def truthy_string_def truthy_bool_def

lemmas run_defs = ensureDir_def fs_defs path_defs example_defs failing_world_def Let_def

lemma example_paths:
  "path_dirname ''in/a.mkv'' = ''in''"
  "path_join ''out'' ''b.mkv'' = ''out/b.mkv''"
  "path_resolve ''/media'' ''in/a.mkv'' = ''/media/in/a.mkv''"
  "path_resolve ''/media'' ''out/b.mkv'' = ''/media/out/b.mkv''"
  "path_resolve ''/media'' ''out'' = ''/media/out''"
  by (simp_all add: path_defs)


section \<open>Facts about the filesystem calls\<close>

lemma sys_error_not_destination_exists:
  "\<not> prefix ''Destination exists'' (message (sys_error e op))"
  by (cases e) (simp_all add: sys_error_def)

lemma sys_error_code [simp]: "code (sys_error e op) = Some e"
  by (simp add: sys_error_def)

lemma fs_unlink_error:
  "fs_unlink p w = (Inl err, w') \<Longrightarrow> \<exists>e. err = sys_error e (Unlink p)"
  by (auto simp: fs_unlink_def Let_def split: option.splits node.splits)


lemma fs_rename_error:
  "fs_rename a b w = (Inl err, w') \<Longrightarrow> \<exists>e. err = sys_error e (Rename a b)"
  by (auto simp: fs_rename_def Let_def split: option.splits node.splits)

lemma fs_copyFile_error:
  "fs_copyFile a b w = (Inl err, w') \<Longrightarrow> \<exists>e. err = sys_error e (CopyFile a b)"
  by (auto simp: fs_copyFile_def Let_def split: option.splits node.splits)

lemma move_file_error:
  assumes "move_file a b w = (Inl err, w')"
  shows "\<exists>e. err = sys_error e (Rename a b) \<or> err = sys_error e (CopyFile a b) \<or> err = sys_error e (Unlink a)"
proof (cases "fs_rename a b w")
  case (Pair r w1)
  show ?thesis
  proof (cases r)
    case (Inr u)
    with Pair assms show ?thesis by (simp add: move_file_def)
  next
    case (Inl e1)
    note rn = Pair [unfolded Inl]
    show ?thesis
    proof (cases "code e1 = Some EXDEV")
      case False
      with rn assms have "err = e1" by (simp add: move_file_def)
      with fs_rename_error [OF rn] show ?thesis by blast
    next
      case True
      show ?thesis
      proof (cases "fs_copyFile a b w1")
        case (Pair r2 w2)
        note cp = this
        show ?thesis
        proof (cases r2)
          case (Inl e2)
          with cp rn True assms have "err = e2" by (simp add: move_file_def)
          with fs_copyFile_error [OF cp [unfolded Inl]] show ?thesis by blast
        next
          case (Inr u)
          note cp' = cp [unfolded Inr]
          show ?thesis
          proof (cases "fs_unlink a w2")
            case (Pair r3 w3)
            show ?thesis
            proof (cases r3)
              case (Inl e3)
              with Pair cp' rn True assms have "err = e3" by (simp add: move_file_def)
              with fs_unlink_error [OF Pair [unfolded Inl]] show ?thesis by blast
            next
              case (Inr u3)
              with Pair cp' rn True assms show ?thesis by (simp add: move_file_def)
            qed
          qed
        qed
      qed
    qed
  qed
qed

lemma sys_error_eq_iff:
  "sys_error e op = sys_error e' op' \<longleftrightarrow> e = e' \<and> fsop_text op = fsop_text op'"
  by (auto simp: sys_error_def)

lemma move_file_error_not_unlink:
  assumes "move_file a b w = (Inl err, w')" and "a \<noteq> b"
  shows "err \<noteq> sys_error e (Unlink b)"
proof -
  from move_file_error [OF assms(1)] obtain e' where
    "err = sys_error e' (Rename a b) \<or> err = sys_error e' (CopyFile a b) \<or> err = sys_error e' (Unlink a)"
    by blast
  with assms(2) show ?thesis
    by (auto simp: sys_error_eq_iff)
qed

lemma fs_mkdir_cwd: "fs_mkdir d w = (r, w') \<Longrightarrow> cwd w' = cwd w \<and> faults w' = faults w"
  by (auto simp: fs_mkdir_def logged_def Let_def split: option.splits sum.splits)

lemma fs_access_ok:
  "fs_access p w = (Inr u, w') \<Longrightarrow> w' = logged (Access p) w"
  by (auto simp: fs_access_def Let_def split: option.splits)

lemma fs_unlink_file:
  assumes "nodes w (path_resolve (cwd w) p) = Some (File c)" and "faults w (Unlink p) = None"
  shows "fs_unlink p w =
         (Inr (), (logged (Unlink p) w)\<lparr>nodes := (nodes w)(path_resolve (cwd w) p := None)\<rparr>)"
  using assms by (simp add: fs_unlink_def Let_def)

lemma fs_rename_file:
  assumes "nodes w (path_resolve (cwd w) a) = Some (File c)"
    and "nodes w (path_resolve (cwd w) b) \<noteq> Some Dir"
    and "faults w (Rename a b) = None"
  shows "fs_rename a b w =
         (Inr (), (logged (Rename a b) w)
            \<lparr>nodes := (nodes w)(path_resolve (cwd w) a := None, path_resolve (cwd w) b \<mapsto> File c)\<rparr>)"
  using assms by (auto simp: fs_rename_def Let_def split: option.splits node.splits)

lemma fs_copyFile_file:
  assumes "nodes w (path_resolve (cwd w) a) = Some (File c)"
    and "nodes w (path_resolve (cwd w) b) \<noteq> Some Dir"
    and "faults w (CopyFile a b) = None"
  shows "fs_copyFile a b w =
         (Inr (), (logged (CopyFile a b) w)\<lparr>nodes := (nodes w)(path_resolve (cwd w) b \<mapsto> File c)\<rparr>)"
  using assms by (auto simp: fs_copyFile_def Let_def split: option.splits node.splits)

lemma fs_rename_failed:
  "fs_rename a b w = (Inl err, w') \<Longrightarrow> w' = logged (Rename a b) w"
  by (auto simp: fs_rename_def Let_def split: option.splits node.splits)


lemma fs_access_cwd: "cwd (snd (fs_access p w)) = cwd w"
  by (simp add: fs_access_def logged_def Let_def split: option.splits)

lemma fs_unlink_cwd: "cwd (snd (fs_unlink p w)) = cwd w"
  by (simp add: fs_unlink_def logged_def Let_def split: option.splits node.splits)

lemma check_destination_cwd:
  assumes "check_destination p options w = (r, w')"
  shows "cwd w' = cwd w"
proof (cases "fs_access p w")
  case (Pair r1 w1)
  then have c1: "cwd w1 = cwd w" using fs_access_cwd [of p w] by simp
  show ?thesis
  proof (cases "fs_unlink p w1")
    case (Pair r2 w2)
    then have c2: "cwd w2 = cwd w" using fs_unlink_cwd [of p w1] c1 by simp
    from assms \<open>fs_access p w = (r1, w1)\<close> Pair c1 c2 show ?thesis
      by (auto simp: check_destination_def split: sum.splits if_splits)
  qed
qed


lemma mkdirs_keeps:
  "mkdirs qs ns = Inr ns' \<Longrightarrow> ns p = Some n \<Longrightarrow> ns' p = Some n"
proof (induction qs arbitrary: ns)
  case Nil
  then show ?case by simp
next
  case (Cons q qs)
  show ?case
  proof (cases "ns q")
    case None
    with Cons.prems(1) have "mkdirs qs (ns(q \<mapsto> Dir)) = Inr ns'" by simp
    moreover have "(ns(q \<mapsto> Dir)) p = Some n" using None Cons.prems(2) by auto
    ultimately show ?thesis by (rule Cons.IH)
  next
    case (Some m)
    show ?thesis
    proof (cases m)
      case (File c)
      with Some Cons.prems(1) show ?thesis by simp
    next
      case Dir
      with Some Cons.prems(1) have "mkdirs qs (ns(q \<mapsto> Dir)) = Inr ns'" by simp
      moreover have "(ns(q \<mapsto> Dir)) p = Some n" using Some Dir Cons.prems(2) by auto
      ultimately show ?thesis by (rule Cons.IH)
    qed
  qed
qed

lemma fs_mkdir_ok:
  assumes "fs_mkdir d w = (Inr (), w1)"
  shows "cwd w1 = cwd w" and "faults w1 = faults w" and "trace w1 = trace w @ [Mkdir d]"
    and "nodes w p = Some n \<Longrightarrow> nodes w1 p = Some n"
proof -
  from assms obtain ns where ns: "mkdirs (ancestors (path_resolve (cwd w) d)) (nodes w) = Inr ns"
    and w1: "w1 = (logged (Mkdir d) w)\<lparr>nodes := ns\<rparr>"
    by (auto simp: fs_mkdir_def Let_def split: option.splits sum.splits)
  show "cwd w1 = cwd w" "faults w1 = faults w" "trace w1 = trace w @ [Mkdir d]"
    by (simp_all add: w1 logged_def)
  show "nodes w p = Some n \<Longrightarrow> nodes w1 p = Some n"
    using mkdirs_keeps [OF ns] by (simp add: w1)
qed

lemma fs_access_present:
  assumes "nodes w (path_resolve (cwd w) p) = Some n" and "faults w (Access p) = None"
  shows "fs_access p w = (Inr (), logged (Access p) w)"
  using assms by (simp add: fs_access_def Let_def)

lemma fs_access_error:
  "fs_access p w = (Inl err, w') \<Longrightarrow> \<exists>e. err = sys_error e (Access p)"
  by (auto simp: fs_access_def Let_def split: option.splits)

lemma logged_fields:
  "cwd (logged op w) = cwd w" "nodes (logged op w) = nodes w"
  "faults (logged op w) = faults w" "trace (logged op w) = trace w @ [op]"
  by (simp_all add: logged_def)

lemma fs_copyFile_cases:
  "(\<exists>e. fs_copyFile a b w = (Inl (sys_error e (CopyFile a b)), logged (CopyFile a b) w)) \<or>
   (\<exists>c. nodes w (path_resolve (cwd w) a) = Some (File c) \<and>
        fs_copyFile a b w =
          (Inr (), (logged (CopyFile a b) w)
                     \<lparr>nodes := (nodes w)(path_resolve (cwd w) b \<mapsto> File c)\<rparr>))"
  by (auto simp: fs_copyFile_def Let_def split: option.splits node.splits)

lemma fs_unlink_cases:
  "(\<exists>e. fs_unlink p w = (Inl (sys_error e (Unlink p)), logged (Unlink p) w)) \<or>
   (\<exists>c. nodes w (path_resolve (cwd w) p) = Some (File c) \<and>
        fs_unlink p w =
          (Inr (), (logged (Unlink p) w)\<lparr>nodes := (nodes w)(path_resolve (cwd w) p := None)\<rparr>))"
  by (auto simp: fs_unlink_def Let_def split: option.splits node.splits)


text \<open>The conflict rule and the fallback, from the point where the calls before them went through.\<close>

lemma conflict_after_check:
  assumes "applyFlag options"
    and "destDir = (if truthy_string (targetDir options) then the (targetDir options)
                    else path_dirname originalPath)"
    and "newPath = path_join destDir newBasename"
    and "path_resolve (cwd w) originalPath \<noteq> path_resolve (cwd w) newPath"
    and "ensureDir destDir w = (Inr (), w1)"
    and "fs_access newPath w1 = (Inr (), w2)"
  shows "(\<not> truthy_bool (replace options) \<longrightarrow>
            renameFile originalPath newBasename options w =
              (Inl (destination_exists_error newPath), w2)) \<and>
         (truthy_bool (replace options) \<and>
          nodes w2 (path_resolve (cwd w) newPath) = Some (File old) \<and>
          nodes w2 (path_resolve (cwd w) originalPath) = Some (File content) \<and>
          faults w2 (Unlink newPath) = None \<and>
          faults w2 (Rename originalPath newPath) = None \<longrightarrow>
            (\<exists>w3 w4.
               fs_unlink newPath w2 = (Inr (), w3) \<and>
               nodes w3 (path_resolve (cwd w) newPath) = None \<and>
               renameFile originalPath newBasename options w = (Inr newPath, w4) \<and>
               trace w4 = trace w2 @ [Unlink newPath, Rename originalPath newPath] \<and>
               nodes w4 (path_resolve (cwd w) newPath) = Some (File content) \<and>
               nodes w4 (path_resolve (cwd w) originalPath) = None))"
proof (intro conjI impI)
  assume no: "\<not> truthy_bool (replace options)"
  have "\<not> (code (destination_exists_error newPath) = Some ENOENT)"
    by (simp add: destination_exists_error_def)
  moreover have "prefix ''Destination exists'' (message (destination_exists_error newPath))"
    by (simp add: destination_exists_error_def)
  ultimately have "check_destination newPath options w1 = (Inl (destination_exists_error newPath), w2)"
    using no assms(6) by (auto simp: check_destination_def)
  with assms(1-5) show "renameFile originalPath newBasename options w =
      (Inl (destination_exists_error newPath), w2)"
    by (simp add: renameFile_def Let_def)
next
  assume h: "truthy_bool (replace options) \<and>
          nodes w2 (path_resolve (cwd w) newPath) = Some (File old) \<and>
          nodes w2 (path_resolve (cwd w) originalPath) = Some (File content) \<and>
          faults w2 (Unlink newPath) = None \<and>
          faults w2 (Rename originalPath newPath) = None"
  have c1: "cwd w1 = cwd w" using assms(5) fs_mkdir_cwd [of destDir w "Inr ()" w1] by (simp add: ensureDir_def)
  have w2: "w2 = logged (Access newPath) w1" using assms(6) by (rule fs_access_ok)
  then have c2: "cwd w2 = cwd w" using c1 by (simp add: logged_def)
  let ?ra = "path_resolve (cwd w) originalPath" and ?rb = "path_resolve (cwd w) newPath"
  define w3 where "w3 = (logged (Unlink newPath) w2)\<lparr>nodes := (nodes w2)(?rb := None)\<rparr>"
  have un: "fs_unlink newPath w2 = (Inr (), w3)"
    using h fs_unlink_file [of w2 newPath old] by (simp add: c2 w3_def)
  have chk: "check_destination newPath options w1 = (Inr (), w3)"
    using h assms(6) un by (simp add: check_destination_def)
  have c3: "cwd w3 = cwd w" by (simp add: w3_def logged_def c2)
  have src: "nodes w3 ?ra = Some (File content)"
    using h assms(4) by (simp add: w3_def logged_def)
  have dst: "nodes w3 ?rb = None" by (simp add: w3_def logged_def)
  have flt: "faults w3 (Rename originalPath newPath) = None"
    using h by (simp add: w3_def logged_def)
  define w4 where "w4 = (logged (Rename originalPath newPath) w3)
            \<lparr>nodes := (nodes w3)(?ra := None, ?rb \<mapsto> File content)\<rparr>"
  have rn: "fs_rename originalPath newPath w3 = (Inr (), w4)"
    using fs_rename_file [of w3 originalPath content newPath] src dst flt
    by (simp add: c3 w4_def)
  have res: "renameFile originalPath newBasename options w = (Inr newPath, w4)"
    using assms(1-5) chk rn by (simp add: renameFile_def Let_def move_file_def)
  have tr: "trace w4 = trace w2 @ [Unlink newPath, Rename originalPath newPath]"
    by (simp add: w4_def w3_def logged_def)
  have n1: "nodes w4 ?rb = Some (File content)" by (simp add: w4_def logged_def)
  have n2: "nodes w4 ?ra = None" using assms(4) by (simp add: w4_def logged_def)
  from un dst res tr n1 n2
  show "\<exists>w3 w4.
               fs_unlink newPath w2 = (Inr (), w3) \<and>
               nodes w3 (path_resolve (cwd w) newPath) = None \<and>
               renameFile originalPath newBasename options w = (Inr newPath, w4) \<and>
               trace w4 = trace w2 @ [Unlink newPath, Rename originalPath newPath] \<and>
               nodes w4 (path_resolve (cwd w) newPath) = Some (File content) \<and>
               nodes w4 (path_resolve (cwd w) originalPath) = None"
    by blast
qed

lemma fallback_when_calls_succeed:
  assumes "applyFlag options"
    and "destDir = (if truthy_string (targetDir options) then the (targetDir options)
                    else path_dirname originalPath)"
    and "newPath = path_join destDir newBasename"
    and "path_resolve (cwd w) originalPath \<noteq> path_resolve (cwd w) newPath"
    and "ensureDir destDir w = (Inr (), w1)"
    and "check_destination newPath options w1 = (Inr (), w2)"
    and "fs_rename originalPath newPath w2 = (Inl err, w3)"
  shows "(code err \<noteq> Some EXDEV \<longrightarrow>
            renameFile originalPath newBasename options w = (Inl err, w3)) \<and>
         (code err = Some EXDEV \<and>
          nodes w3 (path_resolve (cwd w) originalPath) = Some (File content) \<and>
          nodes w3 (path_resolve (cwd w) newPath) \<noteq> Some Dir \<and>
          faults w3 (CopyFile originalPath newPath) = None \<and>
          faults w3 (Unlink originalPath) = None \<longrightarrow>
            (\<exists>w5.
               renameFile originalPath newBasename options w = (Inr newPath, w5) \<and>
               trace w5 = trace w2 @ [Rename originalPath newPath,
                                       CopyFile originalPath newPath, Unlink originalPath] \<and>
               nodes w5 (path_resolve (cwd w) newPath) = Some (File content) \<and>
               nodes w5 (path_resolve (cwd w) originalPath) = None))"
proof (intro conjI impI)
  assume "code err \<noteq> Some EXDEV"
  with assms show "renameFile originalPath newBasename options w = (Inl err, w3)"
    by (simp add: renameFile_def Let_def move_file_def)
next
  assume h: "code err = Some EXDEV \<and>
          nodes w3 (path_resolve (cwd w) originalPath) = Some (File content) \<and>
          nodes w3 (path_resolve (cwd w) newPath) \<noteq> Some Dir \<and>
          faults w3 (CopyFile originalPath newPath) = None \<and>
          faults w3 (Unlink originalPath) = None"
  let ?ra = "path_resolve (cwd w) originalPath" and ?rb = "path_resolve (cwd w) newPath"
  have w3: "w3 = logged (Rename originalPath newPath) w2"
    using assms(7) by (rule fs_rename_failed)
  have c1: "cwd w1 = cwd w"
    using assms(5) fs_mkdir_cwd [of destDir w "Inr ()" w1] by (simp add: ensureDir_def)
  have c2: "cwd w2 = cwd w"
    using check_destination_cwd [OF assms(6)] c1 by simp
  have c3: "cwd w3 = cwd w"
    using c2 by (simp add: w3 logged_def)
  define w4 where "w4 = (logged (CopyFile originalPath newPath) w3)
                          \<lparr>nodes := (nodes w3)(?rb \<mapsto> File content)\<rparr>"
  have cp: "fs_copyFile originalPath newPath w3 = (Inr (), w4)"
    using fs_copyFile_file [of w3 originalPath content newPath] h by (simp add: c3 w4_def)
  have c4: "cwd w4 = cwd w" by (simp add: w4_def logged_def c3)
  have src: "nodes w4 ?ra = Some (File content)"
    using h assms(4) by (simp add: w4_def logged_def)
  have flt: "faults w4 (Unlink originalPath) = None"
    using h by (simp add: w4_def logged_def)
  define w5 where "w5 = (logged (Unlink originalPath) w4)\<lparr>nodes := (nodes w4)(?ra := None)\<rparr>"
  have un: "fs_unlink originalPath w4 = (Inr (), w5)"
    using fs_unlink_file [of w4 originalPath content] src flt by (simp add: c4 w5_def)
  have res: "renameFile originalPath newBasename options w = (Inr newPath, w5)"
    using assms h cp un by (simp add: renameFile_def Let_def move_file_def)
  have tr: "trace w5 = trace w2 @ [Rename originalPath newPath,
                                       CopyFile originalPath newPath, Unlink originalPath]"
    by (simp add: w5_def w4_def w3 logged_def)
  have n1: "nodes w5 ?rb = Some (File content)"
    using assms(4) by (simp add: w5_def w4_def logged_def)
  have n2: "nodes w5 ?ra = None" by (simp add: w5_def logged_def)
  from res tr n1 n2 show "\<exists>w5.
               renameFile originalPath newBasename options w = (Inr newPath, w5) \<and>
               trace w5 = trace w2 @ [Rename originalPath newPath,
                                       CopyFile originalPath newPath, Unlink originalPath] \<and>
               nodes w5 (path_resolve (cwd w) newPath) = Some (File content) \<and>
               nodes w5 (path_resolve (cwd w) originalPath) = None"
    by blast
qed

section \<open>Properties of the move executor\<close>

text \<open>
  C9. The \<open>dryRun\<close> field has no effect on \<open>renameFile\<close>: whatever value it is given
  (true, false or absent), the returned path or error and the resulting filesystem, with
  the calls made on it, are those of the unchanged options.
\<close>

theorem renameFile_ignores_dryRun:
  "renameFile originalPath newBasename (options\<lparr>dryRun := d\<rparr>) w =
   renameFile originalPath newBasename options w"
proof -
  have same_check:
    "check_destination p (options\<lparr>dryRun := d\<rparr>) v = check_destination p options v" for p v
    by (simp add: check_destination_def split: prod.splits sum.splits)
  show ?thesis
    by (simp add: renameFile_def same_check Let_def cong: prod.case_cong sum.case_cong)
qed

text \<open>
  C1. With \<open>apply = false\<close>, \<open>renameFile\<close> returns the computed destination path:
  \<open>targetDir\<close> joined with the new basename when \<open>targetDir\<close> is set (to a non-empty
  string, the test the source makes), and the parent directory of the original joined
  with the new basename otherwise. The world is returned as it was: no node is created,
  deleted or moved, and the trace gets no call, so nothing is checked for existence
  either, whatever is at the destination.
\<close>

theorem renameFile_dry_run:
  assumes "\<not> applyFlag options"
  shows "renameFile originalPath newBasename options w =
         (Inr (path_join
                 (case targetDir options of
                    None \<Rightarrow> path_dirname originalPath
                  | Some d \<Rightarrow> if d \<noteq> [] then d else path_dirname originalPath)
                 newBasename), w)"
  using assms
  by (simp add: renameFile_def truthy_string_def Let_def split: option.splits)

theorem renameFile_dry_run_witness:
  "\<not> applyFlag (example_options False False) \<and>
   nodes example_world ''/media/out/b.mkv'' = Some (File ''BBB'') \<and>
   renameFile ''in/a.mkv'' ''b.mkv'' (example_options False False) example_world =
     (Inr ''out/b.mkv'', example_world)"
proof -
  have dry: "\<not> applyFlag (example_options False False)"
    by (simp add: example_options_def)
  have dest: "path_join ''out'' ''b.mkv'' = ''out/b.mkv''"
    by (simp add: path_defs)
  have there: "nodes example_world ''/media/out/b.mkv'' = Some (File ''BBB'')"
    by (simp add: example_world_def)
  from renameFile_dry_run [OF dry, of "''in/a.mkv''" "''b.mkv''" example_world]
  have "renameFile ''in/a.mkv'' ''b.mkv'' (example_options False False) example_world =
        (Inr ''out/b.mkv'', example_world)"
    by (simp add: example_options_def dest)
  with dry there show ?thesis by simp
qed

text \<open>
  C2. When the resolved original path equals the resolved destination path,
  \<open>renameFile\<close> returns the destination path and the world as it was (no call is made on
  the filesystem), whether \<open>apply\<close> is true or false.
\<close>

theorem renameFile_same_path_noop:
  assumes "destDir = (if truthy_string (targetDir options) then the (targetDir options)
                      else path_dirname originalPath)"
    and "newPath = path_join destDir newBasename"
    and "path_resolve (cwd w) originalPath = path_resolve (cwd w) newPath"
  shows "renameFile originalPath newBasename options w = (Inr newPath, w)"
  using assms by (simp add: renameFile_def Let_def)

theorem renameFile_same_path_noop_witness:
  "path_resolve (cwd example_world) ''in/a.mkv'' =
     path_resolve (cwd example_world) (path_join ''/media/in/../in'' ''a.mkv'') \<and>
   renameFile ''in/a.mkv'' ''a.mkv''
     \<lparr>applyFlag = True, dryRun = None, replace = Some True, targetDir = Some ''/media/in/../in''\<rparr>
     example_world = (Inr ''/media/in/a.mkv'', example_world)"
proof -
  let ?options = "\<lparr>applyFlag = True, dryRun = None, replace = Some True,
                   targetDir = Some ''/media/in/../in''\<rparr>"
  have dir: "''/media/in/../in'' =
             (if truthy_string (targetDir ?options) then the (targetDir ?options)
              else path_dirname ''in/a.mkv'')"
    by (simp add: truthy_string_def)
  have dest: "''/media/in/a.mkv'' = path_join ''/media/in/../in'' ''a.mkv''"
    by (simp add: path_defs)
  have same: "path_resolve (cwd example_world) ''in/a.mkv'' =
              path_resolve (cwd example_world) ''/media/in/a.mkv''"
    by (simp add: path_defs example_world_def)
  from renameFile_same_path_noop [OF dir dest same] same dest show ?thesis by simp
qed

text \<open>
  C3, as the code has it. Let \<open>apply\<close> be set, the resolved destination differ from the
  resolved source, and the directory step go through. If something exists at the
  destination, the \<open>fs.access\<close> check on it goes through and \<open>replace\<close> is not set,
  \<open>renameFile\<close> fails with the \<open>Destination exists\<close> error, after the check and nothing
  else. If a file exists at the destination, the check goes through, \<open>replace\<close> is set,
  the source is a file and neither the unlink nor the rename is made to fail, the old
  destination file is unlinked before the move: the calls are mkdir, access, unlink,
  rename, the destination path is returned, the destination holds the content of the
  source and the source is gone. If the check fails with a code other than \<open>ENOENT\<close>,
  the conflict rule is not applied, whatever \<open>replace\<close> is and whether or not the
  destination exists: the result is that of the move.
\<close>

theorem renameFile_destination_conflict:
  assumes "applyFlag options"
    and "destDir = (if truthy_string (targetDir options) then the (targetDir options)
                    else path_dirname originalPath)"
    and "newPath = path_join destDir newBasename"
    and "path_resolve (cwd w) originalPath \<noteq> path_resolve (cwd w) newPath"
    and "ensureDir destDir w = (Inr (), w1)"
  shows "(nodes w (path_resolve (cwd w) newPath) = Some present \<and>
          faults w (Access newPath) = None \<and>
          \<not> truthy_bool (replace options) \<longrightarrow>
            renameFile originalPath newBasename options w =
              (Inl (destination_exists_error newPath), logged (Access newPath) w1)) \<and>
         (nodes w (path_resolve (cwd w) newPath) = Some (File old) \<and>
          faults w (Access newPath) = None \<and>
          truthy_bool (replace options) \<and>
          nodes w (path_resolve (cwd w) originalPath) = Some (File content) \<and>
          faults w (Unlink newPath) = None \<and>
          faults w (Rename originalPath newPath) = None \<longrightarrow>
            (\<exists>w3 w4.
               fs_unlink newPath (logged (Access newPath) w1) = (Inr (), w3) \<and>
               nodes w3 (path_resolve (cwd w) newPath) = None \<and>
               renameFile originalPath newBasename options w = (Inr newPath, w4) \<and>
               trace w4 = trace w @ [Mkdir destDir, Access newPath, Unlink newPath,
                                      Rename originalPath newPath] \<and>
               nodes w4 (path_resolve (cwd w) newPath) = Some (File content) \<and>
               nodes w4 (path_resolve (cwd w) originalPath) = None)) \<and>
         (\<forall>err w2. fs_access newPath w1 = (Inl err, w2) \<and> code err \<noteq> Some ENOENT \<longrightarrow>
            renameFile originalPath newBasename options w = move_file originalPath newPath w2)"
proof -
  let ?ra = "path_resolve (cwd w) originalPath" and ?rb = "path_resolve (cwd w) newPath"
  let ?w2 = "logged (Access newPath) w1"
  from assms(5) have mk: "fs_mkdir destDir w = (Inr (), w1)" by (simp add: ensureDir_def)
  note after = fs_mkdir_ok [OF mk]
  have checked: "fs_access newPath w1 = (Inr (), ?w2)"
    if "nodes w ?rb = Some n" "faults w (Access newPath) = None" for n
    using fs_access_present [of w1 newPath n] after(4) [OF that(1)] that(2)
    by (simp add: after(1,2))
  have first: "renameFile originalPath newBasename options w =
              (Inl (destination_exists_error newPath), ?w2)"
    if "nodes w ?rb = Some present \<and> faults w (Access newPath) = None \<and>
        \<not> truthy_bool (replace options)"
    using conflict_after_check [OF assms(1-5) checked, of present] that by blast
  have second: "\<exists>w3 w4.
               fs_unlink newPath ?w2 = (Inr (), w3) \<and>
               nodes w3 ?rb = None \<and>
               renameFile originalPath newBasename options w = (Inr newPath, w4) \<and>
               trace w4 = trace w @ [Mkdir destDir, Access newPath, Unlink newPath,
                                      Rename originalPath newPath] \<and>
               nodes w4 ?rb = Some (File content) \<and>
               nodes w4 ?ra = None"
    if h: "nodes w ?rb = Some (File old) \<and>
          faults w (Access newPath) = None \<and>
          truthy_bool (replace options) \<and>
          nodes w ?ra = Some (File content) \<and>
          faults w (Unlink newPath) = None \<and>
          faults w (Rename originalPath newPath) = None"
  proof -
    from h have ck: "fs_access newPath w1 = (Inr (), ?w2)" using checked by blast
    have pre: "truthy_bool (replace options) \<and>
          nodes ?w2 ?rb = Some (File old) \<and>
          nodes ?w2 ?ra = Some (File content) \<and>
          faults ?w2 (Unlink newPath) = None \<and>
          faults ?w2 (Rename originalPath newPath) = None"
      using h after(4) [of ?rb "File old"] after(4) [of ?ra "File content"]
      by (simp add: logged_def after(2))
    from conflict_after_check [OF assms(1-5) ck, of old content] pre
    obtain w3 w4 where r: "fs_unlink newPath ?w2 = (Inr (), w3)"
      "nodes w3 ?rb = None"
      "renameFile originalPath newBasename options w = (Inr newPath, w4)"
      "trace w4 = trace ?w2 @ [Unlink newPath, Rename originalPath newPath]"
      "nodes w4 ?rb = Some (File content)" "nodes w4 ?ra = None"
      by blast
    from r(4) have "trace w4 = trace w @ [Mkdir destDir, Access newPath, Unlink newPath,
                                      Rename originalPath newPath]"
      by (simp add: logged_def after(3))
    with r show ?thesis by blast
  qed
  have third: "renameFile originalPath newBasename options w = move_file originalPath newPath w2"
    if h: "fs_access newPath w1 = (Inl err, w2) \<and> code err \<noteq> Some ENOENT" for err w2
  proof -
    from h fs_access_error obtain e where "err = sys_error e (Access newPath)" by blast
    then have "\<not> prefix ''Destination exists'' (message err)"
      by (simp add: sys_error_not_destination_exists)
    with h have "check_destination newPath options w1 = (Inr (), w2)"
      by (simp add: check_destination_def)
    with assms(1-5) show ?thesis by (simp add: renameFile_def Let_def)
  qed
  from first second third show ?thesis by blast
qed

text \<open>
  C3 as stated fails: with a destination that exists, \<open>replace\<close> not set and a check that
  fails with \<open>EACCES\<close>, there is no \<open>Destination exists\<close> error and the destination file
  is overwritten by the rename.
\<close>

theorem renameFile_overwrites_unchecked_destination:
  "nodes (failing_world (Access ''out/b.mkv'') EACCES) ''/media/out/b.mkv'' = Some (File ''BBB'') \<and>
   \<not> truthy_bool (replace (example_options True False)) \<and>
   fst (renameFile ''in/a.mkv'' ''b.mkv'' (example_options True False)
          (failing_world (Access ''out/b.mkv'') EACCES)) = Inr ''out/b.mkv'' \<and>
   trace (snd (renameFile ''in/a.mkv'' ''b.mkv'' (example_options True False)
          (failing_world (Access ''out/b.mkv'') EACCES))) =
     [Mkdir ''out'', Access ''out/b.mkv'', Rename ''in/a.mkv'' ''out/b.mkv''] \<and>
   nodes (snd (renameFile ''in/a.mkv'' ''b.mkv'' (example_options True False)
          (failing_world (Access ''out/b.mkv'') EACCES))) ''/media/out/b.mkv'' =
     Some (File ''AAA'')"
  by (simp add: renameFile_def check_destination_def move_file_def run_defs)

theorem renameFile_destination_conflict_witness:
  "fst (renameFile ''in/a.mkv'' ''b.mkv'' (example_options True False) example_world) =
     Inl (destination_exists_error ''out/b.mkv'') \<and>
   nodes example_world ''/media/out/b.mkv'' = Some (File ''BBB'') \<and>
   fst (renameFile ''in/a.mkv'' ''b.mkv'' (example_options True True) example_world) =
     Inr ''out/b.mkv'' \<and>
   trace (snd (renameFile ''in/a.mkv'' ''b.mkv'' (example_options True True) example_world)) =
     [Mkdir ''out'', Access ''out/b.mkv'', Unlink ''out/b.mkv'', Rename ''in/a.mkv'' ''out/b.mkv''] \<and>
   nodes (snd (renameFile ''in/a.mkv'' ''b.mkv'' (example_options True True) example_world))
     ''/media/out/b.mkv'' = Some (File ''AAA'') \<and>
   nodes (snd (renameFile ''in/a.mkv'' ''b.mkv'' (example_options True True) example_world))
     ''/media/in/a.mkv'' = None \<and>
   renameFile ''in/a.mkv'' ''b.mkv'' (example_options True False)
       (failing_world (Access ''out/b.mkv'') EACCES) =
     move_file ''in/a.mkv'' ''out/b.mkv''
       (snd (fs_access ''out/b.mkv''
          (snd (ensureDir ''out'' (failing_world (Access ''out/b.mkv'') EACCES)))))"
proof -
  let ?f = "failing_world (Access ''out/b.mkv'') EACCES"
  let ?w1 = "snd (ensureDir ''out'' example_world)"
  let ?f1 = "snd (ensureDir ''out'' ?f)"
  let ?f2 = "snd (fs_access ''out/b.mkv'' ?f1)"
  have cw: "cwd example_world = ''/media''" by (simp add: example_world_def)
  have cf: "cwd ?f = ''/media''" by (simp add: failing_world_def example_world_def)
  have ne: "path_resolve (cwd example_world) ''in/a.mkv'' \<noteq>
            path_resolve (cwd example_world) ''out/b.mkv''"
    by (simp add: cw example_paths)
  have nf: "path_resolve (cwd ?f) ''in/a.mkv'' \<noteq> path_resolve (cwd ?f) ''out/b.mkv''"
    by (simp add: cf example_paths)
  have mk: "ensureDir ''out'' example_world = (Inr (), ?w1)"
    by (simp add: run_defs)
  have mf: "ensureDir ''out'' ?f = (Inr (), ?f1)"
    by (simp add: run_defs)
  have dir: "''out'' = (if truthy_string (targetDir (example_options True r))
                        then the (targetDir (example_options True r))
                        else path_dirname ''in/a.mkv'')" for r
    by (simp add: example_defs)
  have dest: "''out/b.mkv'' = path_join ''out'' ''b.mkv''" by (simp add: example_paths)
  have ap: "applyFlag (example_options True r)" for r by (simp add: example_defs)
  have there: "nodes example_world ''/media/out/b.mkv'' = Some (File ''BBB'')"
    by (simp add: example_world_def)
  have src: "nodes example_world ''/media/in/a.mkv'' = Some (File ''AAA'')"
    by (simp add: example_world_def)
  have quiet: "faults example_world op = None" for op
    by (simp add: example_world_def)
  have keep: "\<not> truthy_bool (replace (example_options True False))"
    by (simp add: example_defs)
  have repl: "truthy_bool (replace (example_options True True))"
    by (simp add: example_defs)
  have denied: "fs_access ''out/b.mkv'' ?f1 = (Inl (sys_error EACCES (Access ''out/b.mkv'')), ?f2)"
    by (simp add: run_defs)
  note inst1 = renameFile_destination_conflict
                 [where present = "File ''BBB''" and old = "''BBB''" and content = "''AAA''",
                  OF ap [of False] dir [of False] dest ne mk]
  note inst2 = renameFile_destination_conflict
                 [where present = "File ''BBB''" and old = "''BBB''" and content = "''AAA''",
                  OF ap [of True] dir [of True] dest ne mk]
  note inst3 = renameFile_destination_conflict
                 [where present = "File ''BBB''" and old = "''BBB''" and content = "''AAA''",
                  OF ap [of False] dir [of False] dest nf mf]
  from inst1 there quiet keep
  have a: "fst (renameFile ''in/a.mkv'' ''b.mkv'' (example_options True False) example_world) =
             Inl (destination_exists_error ''out/b.mkv'')"
    by (simp add: cw example_paths)
  from inst2 there src quiet repl
  obtain w3 w4 where r:
    "renameFile ''in/a.mkv'' ''b.mkv'' (example_options True True) example_world =
       (Inr ''out/b.mkv'', w4)"
    "trace w4 = trace example_world @ [Mkdir ''out'', Access ''out/b.mkv'', Unlink ''out/b.mkv'',
                                      Rename ''in/a.mkv'' ''out/b.mkv'']"
    "nodes w4 ''/media/out/b.mkv'' = Some (File ''AAA'')"
    "nodes w4 ''/media/in/a.mkv'' = None"
    by (auto simp: cw example_paths)
  have b: "fst (renameFile ''in/a.mkv'' ''b.mkv'' (example_options True True) example_world) =
     Inr ''out/b.mkv'' \<and>
   trace (snd (renameFile ''in/a.mkv'' ''b.mkv'' (example_options True True) example_world)) =
     [Mkdir ''out'', Access ''out/b.mkv'', Unlink ''out/b.mkv'', Rename ''in/a.mkv'' ''out/b.mkv''] \<and>
   nodes (snd (renameFile ''in/a.mkv'' ''b.mkv'' (example_options True True) example_world))
     ''/media/out/b.mkv'' = Some (File ''AAA'') \<and>
   nodes (snd (renameFile ''in/a.mkv'' ''b.mkv'' (example_options True True) example_world))
     ''/media/in/a.mkv'' = None"
    using r by (simp add: example_world_def)
  note third = inst3 [THEN conjunct2, THEN conjunct2, THEN spec, THEN spec, THEN mp,
                       OF conjI, OF denied]
  from third
  have c: "renameFile ''in/a.mkv'' ''b.mkv'' (example_options True False) ?f =
           move_file ''in/a.mkv'' ''out/b.mkv'' ?f2"
    by simp
  from a b c there show ?thesis by simp
qed

text \<open>
  C4, as the code has it. Let \<open>apply\<close> be set, the paths differ, the directory step and
  the destination check go through, and the primary rename fail with an error. If its
  code is not \<open>EXDEV\<close>, this error is the result, in the world the failed rename left.
  If its code is \<open>EXDEV\<close>, one of three things happens. The copy fails: its error is the
  result, after the calls rename, copyFile, and no file has changed. The copy goes
  through and the unlink of the original fails: its error is the result, after the calls
  rename, copyFile, unlink, and both the source and the destination hold the content. The
  copy and the unlink go through: the destination path is returned, after the calls
  rename, copyFile, unlink, the destination holds the content of the source and the
  source is gone. In each case the copy is called once, the unlink at most once and after
  the copy, and the \<open>EXDEV\<close> error itself is never the result. The third case is the one
  that happens when the source is a file, the destination is not a directory and neither
  the copy nor the unlink is made to fail.
\<close>

theorem renameFile_cross_device_fallback:
  assumes "applyFlag options"
    and "destDir = (if truthy_string (targetDir options) then the (targetDir options)
                    else path_dirname originalPath)"
    and "newPath = path_join destDir newBasename"
    and "path_resolve (cwd w) originalPath \<noteq> path_resolve (cwd w) newPath"
    and "ensureDir destDir w = (Inr (), w1)"
    and "check_destination newPath options w1 = (Inr (), w2)"
    and "fs_rename originalPath newPath w2 = (Inl err, w3)"
  shows "(code err \<noteq> Some EXDEV \<longrightarrow>
            renameFile originalPath newBasename options w = (Inl err, w3)) \<and>
         (code err = Some EXDEV \<longrightarrow>
            ((\<exists>e w4.
                renameFile originalPath newBasename options w =
                  (Inl (sys_error e (CopyFile originalPath newPath)), w4) \<and>
                trace w4 = trace w2 @ [Rename originalPath newPath,
                                        CopyFile originalPath newPath] \<and>
                nodes w4 = nodes w2) \<or>
             (\<exists>e content w5.
                renameFile originalPath newBasename options w =
                  (Inl (sys_error e (Unlink originalPath)), w5) \<and>
                trace w5 = trace w2 @ [Rename originalPath newPath,
                                        CopyFile originalPath newPath, Unlink originalPath] \<and>
                nodes w2 (path_resolve (cwd w) originalPath) = Some (File content) \<and>
                nodes w5 (path_resolve (cwd w) newPath) = Some (File content) \<and>
                nodes w5 (path_resolve (cwd w) originalPath) = Some (File content)) \<or>
             (\<exists>content w5.
                renameFile originalPath newBasename options w = (Inr newPath, w5) \<and>
                trace w5 = trace w2 @ [Rename originalPath newPath,
                                        CopyFile originalPath newPath, Unlink originalPath] \<and>
                nodes w2 (path_resolve (cwd w) originalPath) = Some (File content) \<and>
                nodes w5 (path_resolve (cwd w) newPath) = Some (File content) \<and>
                nodes w5 (path_resolve (cwd w) originalPath) = None)) \<and>
            (nodes w2 (path_resolve (cwd w) originalPath) = Some (File content) \<and>
             nodes w2 (path_resolve (cwd w) newPath) \<noteq> Some Dir \<and>
             faults w2 (CopyFile originalPath newPath) = None \<and>
             faults w2 (Unlink originalPath) = None \<longrightarrow>
               (\<exists>w5.
                  renameFile originalPath newBasename options w = (Inr newPath, w5) \<and>
                  trace w5 = trace w2 @ [Rename originalPath newPath,
                                          CopyFile originalPath newPath, Unlink originalPath] \<and>
                  nodes w5 (path_resolve (cwd w) newPath) = Some (File content) \<and>
                  nodes w5 (path_resolve (cwd w) originalPath) = None)))"
proof -
  note logged_fields [simp]
  let ?ra = "path_resolve (cwd w) originalPath" and ?rb = "path_resolve (cwd w) newPath"
  let ?R = "renameFile originalPath newBasename options w"
  let ?rn = "Rename originalPath newPath" and ?cp = "CopyFile originalPath newPath"
  let ?un = "Unlink originalPath"
  note base = fallback_when_calls_succeed [OF assms]
  have w3: "w3 = logged ?rn w2"
    using assms(7) by (rule fs_rename_failed)
  have c1: "cwd w1 = cwd w"
    using assms(5) fs_mkdir_cwd [of destDir w "Inr ()" w1] by (simp add: ensureDir_def)
  have c3: "cwd w3 = cwd w"
    using check_destination_cwd [OF assms(6)] c1 by (simp add: w3)
  have other: "?R = (Inl err, w3)" if "code err \<noteq> Some EXDEV"
    using base [of undefined] that by blast
  have good: "\<exists>w5. ?R = (Inr newPath, w5) \<and> trace w5 = trace w2 @ [?rn, ?cp, ?un] \<and>
                nodes w5 ?rb = Some (File content) \<and> nodes w5 ?ra = None"
    if "code err = Some EXDEV" and "nodes w2 ?ra = Some (File content) \<and>
             nodes w2 ?rb \<noteq> Some Dir \<and> faults w2 ?cp = None \<and> faults w2 ?un = None"
    using base [of content] that by (simp add: w3)
  have branch: "(\<exists>e w4. ?R = (Inl (sys_error e ?cp), w4) \<and>
                  trace w4 = trace w2 @ [?rn, ?cp] \<and> nodes w4 = nodes w2) \<or>
             (\<exists>e content w5. ?R = (Inl (sys_error e ?un), w5) \<and>
                trace w5 = trace w2 @ [?rn, ?cp, ?un] \<and>
                nodes w2 ?ra = Some (File content) \<and>
                nodes w5 ?rb = Some (File content) \<and>
                nodes w5 ?ra = Some (File content)) \<or>
             (\<exists>content w5. ?R = (Inr newPath, w5) \<and>
                trace w5 = trace w2 @ [?rn, ?cp, ?un] \<and>
                nodes w2 ?ra = Some (File content) \<and>
                nodes w5 ?rb = Some (File content) \<and>
                nodes w5 ?ra = None)"
    if x: "code err = Some EXDEV"
  proof -
    have run: "?R = (case fs_copyFile originalPath newPath w3 of
                       (Inl err2, w4) \<Rightarrow> (Inl err2, w4)
                     | (Inr u, w4) \<Rightarrow>
                         (case fs_unlink originalPath w4 of
                            (Inl err3, w5) \<Rightarrow> (Inl err3, w5)
                          | (Inr u, w5) \<Rightarrow> (Inr newPath, w5)))"
    proof -
      from assms(1-6) have "?R = move_file originalPath newPath w2"
        by (simp add: renameFile_def Let_def)
      also have "\<dots> = (case fs_copyFile originalPath newPath w3 of
                       (Inl err2, w4) \<Rightarrow> (Inl err2, w4)
                     | (Inr u, w4) \<Rightarrow>
                         (case fs_unlink originalPath w4 of
                            (Inl err3, w5) \<Rightarrow> (Inl err3, w5)
                          | (Inr u, w5) \<Rightarrow> (Inr newPath, w5)))"
        using assms(7) x by (simp add: move_file_def)
      finally show ?thesis .
    qed
    from fs_copyFile_cases [of originalPath newPath w3]
    consider (copy_failed) e where
        "fs_copyFile originalPath newPath w3 = (Inl (sys_error e ?cp), logged ?cp w3)"
      | (copied) c where "nodes w3 ?ra = Some (File c)"
        "fs_copyFile originalPath newPath w3 =
           (Inr (), (logged ?cp w3)\<lparr>nodes := (nodes w3)(?rb \<mapsto> File c)\<rparr>)"
      by (auto simp: c3)
    then show ?thesis
    proof cases
      case copy_failed
      then have "?R = (Inl (sys_error e ?cp), logged ?cp w3)" by (simp add: run)
      moreover have "trace (logged ?cp w3) = trace w2 @ [?rn, ?cp]" by (simp add: w3)
      moreover have "nodes (logged ?cp w3) = nodes w2" by (simp add: w3)
      ultimately show ?thesis by blast
    next
      case copied
      define w4 where "w4 = (logged ?cp w3)\<lparr>nodes := (nodes w3)(?rb \<mapsto> File c)\<rparr>"
      have cp: "fs_copyFile originalPath newPath w3 = (Inr (), w4)"
        using copied(2) by (simp add: w4_def)
      have c4: "cwd w4 = cwd w" by (simp add: w4_def c3)
      have t4: "trace w4 = trace w2 @ [?rn, ?cp]" by (simp add: w4_def w3)
      have src2: "nodes w2 ?ra = Some (File c)" using copied(1) by (simp add: w3)
      have src4: "nodes w4 ?ra = Some (File c)" using copied(1) assms(4) by (simp add: w4_def)
      have dst4: "nodes w4 ?rb = Some (File c)" by (simp add: w4_def)
      have run': "?R = (case fs_unlink originalPath w4 of
                            (Inl err3, w5) \<Rightarrow> (Inl err3, w5)
                          | (Inr u, w5) \<Rightarrow> (Inr newPath, w5))"
        by (simp add: run cp)
      from fs_unlink_cases [of originalPath w4]
      consider (unlink_failed) e where
          "fs_unlink originalPath w4 = (Inl (sys_error e ?un), logged ?un w4)"
        | (unlinked)
          "fs_unlink originalPath w4 =
             (Inr (), (logged ?un w4)\<lparr>nodes := (nodes w4)(?ra := None)\<rparr>)"
        by (auto simp: c4)
      then show ?thesis
      proof cases
        case unlink_failed
        then have "?R = (Inl (sys_error e ?un), logged ?un w4)" by (simp add: run')
        moreover have "trace (logged ?un w4) = trace w2 @ [?rn, ?cp, ?un]" by (simp add: t4)
        moreover have "nodes (logged ?un w4) ?rb = Some (File c)" by (simp add: dst4)
        moreover have "nodes (logged ?un w4) ?ra = Some (File c)" by (simp add: src4)
        ultimately show ?thesis using src2 by blast
      next
        case unlinked
        let ?w5 = "(logged ?un w4)\<lparr>nodes := (nodes w4)(?ra := None)\<rparr>"
        have "?R = (Inr newPath, ?w5)" using unlinked by (simp add: run')
        moreover have "trace ?w5 = trace w2 @ [?rn, ?cp, ?un]" by (simp add: t4)
        moreover have "nodes ?w5 ?rb = Some (File c)" using assms(4) by (simp add: dst4)
        moreover have "nodes ?w5 ?ra = None" by simp
        ultimately show ?thesis using src2 by blast
      qed
    qed
  qed
  from other branch good show ?thesis by blast
qed

text \<open>
  C4 as stated fails: when the rename fails with \<open>EXDEV\<close> and the copy fails in turn, the
  error of the copy reaches the caller and no destination path is returned.
\<close>

theorem renameFile_fallback_copy_failure:
  "fst (fs_rename ''in/a.mkv'' ''out/b.mkv''
          (snd (check_destination ''out/b.mkv'' (example_options True True)
             (snd (ensureDir ''out'' full_disk_world))))) =
     Inl (sys_error EXDEV (Rename ''in/a.mkv'' ''out/b.mkv'')) \<and>
   fst (renameFile ''in/a.mkv'' ''b.mkv'' (example_options True True) full_disk_world) =
     Inl (sys_error ENOSPC (CopyFile ''in/a.mkv'' ''out/b.mkv'')) \<and>
   trace (snd (renameFile ''in/a.mkv'' ''b.mkv'' (example_options True True) full_disk_world)) =
     [Mkdir ''out'', Access ''out/b.mkv'', Unlink ''out/b.mkv'', Rename ''in/a.mkv'' ''out/b.mkv'',
      CopyFile ''in/a.mkv'' ''out/b.mkv''] \<and>
   nodes (snd (renameFile ''in/a.mkv'' ''b.mkv'' (example_options True True) full_disk_world))
     ''/media/out/b.mkv'' = None"
  by (simp add: renameFile_def check_destination_def move_file_def full_disk_world_def run_defs)

theorem renameFile_cross_device_fallback_witness:
  "fst (renameFile ''in/a.mkv'' ''b.mkv'' (example_options True True)
          (failing_world (Rename ''in/a.mkv'' ''out/b.mkv'') EACCES)) =
     Inl (sys_error EACCES (Rename ''in/a.mkv'' ''out/b.mkv'')) \<and>
   fst (renameFile ''in/a.mkv'' ''b.mkv'' (example_options True True)
          (failing_world (Rename ''in/a.mkv'' ''out/b.mkv'') EXDEV)) = Inr ''out/b.mkv'' \<and>
   trace (snd (renameFile ''in/a.mkv'' ''b.mkv'' (example_options True True)
          (failing_world (Rename ''in/a.mkv'' ''out/b.mkv'') EXDEV))) =
     [Mkdir ''out'', Access ''out/b.mkv'', Unlink ''out/b.mkv'', Rename ''in/a.mkv'' ''out/b.mkv'',
      CopyFile ''in/a.mkv'' ''out/b.mkv'', Unlink ''in/a.mkv''] \<and>
   nodes (snd (renameFile ''in/a.mkv'' ''b.mkv'' (example_options True True)
          (failing_world (Rename ''in/a.mkv'' ''out/b.mkv'') EXDEV))) ''/media/out/b.mkv'' =
     Some (File ''AAA'') \<and>
   nodes (snd (renameFile ''in/a.mkv'' ''b.mkv'' (example_options True True)
          (failing_world (Rename ''in/a.mkv'' ''out/b.mkv'') EXDEV))) ''/media/in/a.mkv'' = None"
proof -
  let ?op = "Rename ''in/a.mkv'' ''out/b.mkv''"
  let ?options = "example_options True True"
  have ap: "applyFlag ?options" by (simp add: example_defs)
  have dir: "''out'' = (if truthy_string (targetDir ?options) then the (targetDir ?options)
                        else path_dirname ''in/a.mkv'')"
    by (simp add: example_defs)
  have dest: "''out/b.mkv'' = path_join ''out'' ''b.mkv''" by (simp add: example_paths)
  have cw: "cwd (failing_world ?op e) = ''/media''" for e
    by (simp add: failing_world_def example_world_def)
  have ne: "path_resolve (cwd (failing_world ?op e)) ''in/a.mkv'' \<noteq>
            path_resolve (cwd (failing_world ?op e)) ''out/b.mkv''" for e
    by (simp add: cw example_paths)
  let ?w1 = "\<lambda>e. snd (ensureDir ''out'' (failing_world ?op e))"
  let ?w2 = "\<lambda>e. snd (check_destination ''out/b.mkv'' ?options (?w1 e))"
  let ?w3 = "\<lambda>e. snd (fs_rename ''in/a.mkv'' ''out/b.mkv'' (?w2 e))"
  have mk: "ensureDir ''out'' (failing_world ?op e) = (Inr (), ?w1 e)" for e
    by (simp add: run_defs)
  have chk: "check_destination ''out/b.mkv'' ?options (?w1 e) = (Inr (), ?w2 e)" for e
    by (simp add: check_destination_def run_defs)
  have rn: "fs_rename ''in/a.mkv'' ''out/b.mkv'' (?w2 e) = (Inl (sys_error e ?op), ?w3 e)" for e
    by (simp add: check_destination_def run_defs)
  note denied = renameFile_cross_device_fallback
                  [where content = "''AAA''",
                   OF ap dir dest ne [of EACCES] mk [of EACCES] chk [of EACCES] rn [of EACCES]]
  note across = renameFile_cross_device_fallback
                  [where content = "''AAA''",
                   OF ap dir dest ne [of EXDEV] mk [of EXDEV] chk [of EXDEV] rn [of EXDEV]]
  have a: "fst (renameFile ''in/a.mkv'' ''b.mkv'' ?options (failing_world ?op EACCES)) =
           Inl (sys_error EACCES ?op)"
    using denied [THEN conjunct1] by simp
  have src: "nodes (?w2 EXDEV) ''/media/in/a.mkv'' = Some (File ''AAA'')"
    by (simp add: check_destination_def run_defs)
  have dst: "nodes (?w2 EXDEV) ''/media/out/b.mkv'' \<noteq> Some Dir"
    by (simp add: check_destination_def run_defs)
  have nf: "faults (?w2 EXDEV) (CopyFile ''in/a.mkv'' ''out/b.mkv'') = None"
           "faults (?w2 EXDEV) (Unlink ''in/a.mkv'') = None"
    by (simp_all add: check_destination_def run_defs)
  have tr: "trace (?w2 EXDEV) = [Mkdir ''out'', Access ''out/b.mkv'', Unlink ''out/b.mkv'']"
    by (simp add: check_destination_def run_defs)
  have x: "code (sys_error EXDEV ?op) = Some EXDEV" by simp
  note moved = across [THEN conjunct2, THEN mp, OF x, THEN conjunct2, THEN mp]
  have "\<exists>w5. renameFile ''in/a.mkv'' ''b.mkv'' ?options (failing_world ?op EXDEV) =
                (Inr ''out/b.mkv'', w5) \<and>
              trace w5 = trace (?w2 EXDEV) @ [?op, CopyFile ''in/a.mkv'' ''out/b.mkv'',
                                               Unlink ''in/a.mkv''] \<and>
              nodes w5 ''/media/out/b.mkv'' = Some (File ''AAA'') \<and>
              nodes w5 ''/media/in/a.mkv'' = None"
    using moved src dst nf by (simp add: cw example_paths)
  then obtain w5 where r:
    "renameFile ''in/a.mkv'' ''b.mkv'' ?options (failing_world ?op EXDEV) = (Inr ''out/b.mkv'', w5)"
    "trace w5 = trace (?w2 EXDEV) @ [?op, CopyFile ''in/a.mkv'' ''out/b.mkv'', Unlink ''in/a.mkv'']"
    "nodes w5 ''/media/out/b.mkv'' = Some (File ''AAA'')"
    "nodes w5 ''/media/in/a.mkv'' = None"
    by blast
  have b: "fst (renameFile ''in/a.mkv'' ''b.mkv'' ?options (failing_world ?op EXDEV)) =
             Inr ''out/b.mkv'' \<and>
           trace (snd (renameFile ''in/a.mkv'' ''b.mkv'' ?options (failing_world ?op EXDEV))) =
             [Mkdir ''out'', Access ''out/b.mkv'', Unlink ''out/b.mkv'', ?op,
              CopyFile ''in/a.mkv'' ''out/b.mkv'', Unlink ''in/a.mkv''] \<and>
           nodes (snd (renameFile ''in/a.mkv'' ''b.mkv'' ?options (failing_world ?op EXDEV)))
             ''/media/out/b.mkv'' = Some (File ''AAA'') \<and>
           nodes (snd (renameFile ''in/a.mkv'' ''b.mkv'' ?options (failing_world ?op EXDEV)))
             ''/media/in/a.mkv'' = None"
    using r(2-4) by (simp add: r(1) tr)
  from a b show ?thesis by simp
qed

text \<open>
  C10. When applying with \<open>replace\<close> set, if the destination exists and unlinking it
  fails with an error whose code is not \<open>ENOENT\<close>, that error is dropped:
  \<open>renameFile\<close> goes on to the rename, in the world the failed unlink left, and its
  result is the result of that move.
\<close>

theorem renameFile_swallows_unlink_failure:
  assumes "applyFlag options"
    and "destDir = (if truthy_string (targetDir options) then the (targetDir options)
                    else path_dirname originalPath)"
    and "newPath = path_join destDir newBasename"
    and "path_resolve (cwd w) originalPath \<noteq> path_resolve (cwd w) newPath"
    and "ensureDir destDir w = (Inr (), w1)"
    and "fs_access newPath w1 = (Inr (), w2)"
    and "truthy_bool (replace options)"
    and "fs_unlink newPath w2 = (Inl err, w3)"
    and "code err \<noteq> Some ENOENT"
  shows "renameFile originalPath newBasename options w = move_file originalPath newPath w3 \<and>
         Rename originalPath newPath
           \<in> set (trace (snd (renameFile originalPath newBasename options w))) \<and>
         fst (renameFile originalPath newBasename options w) \<noteq> Inl err"
proof -
  from assms(8) obtain e where err: "err = sys_error e (Unlink newPath)"
    using fs_unlink_error by blast
  then have "\<not> prefix ''Destination exists'' (message err)"
    by (simp add: sys_error_not_destination_exists)
  with assms(6-9) have chk: "check_destination newPath options w1 = (Inr (), w3)"
    by (simp add: check_destination_def)
  from assms(1-5) chk
  have eq: "renameFile originalPath newBasename options w = move_file originalPath newPath w3"
    by (simp add: renameFile_def Let_def)
  have "Rename originalPath newPath \<in> set (trace (snd (move_file originalPath newPath w3)))"
    by (auto simp: move_file_def fs_defs Let_def split: option.splits node.splits prod.splits sum.splits if_splits)
  moreover have "fst (move_file originalPath newPath w3) \<noteq> Inl err"
  proof
    assume surfaced: "fst (move_file originalPath newPath w3) = Inl err"
    from assms(4) have "originalPath \<noteq> newPath" by auto
    with surfaced err
      move_file_error_not_unlink [of originalPath newPath w3 err
        "snd (move_file originalPath newPath w3)" e]
    show False by (cases "move_file originalPath newPath w3") simp
  qed
  ultimately show ?thesis using eq by simp
qed

theorem renameFile_swallows_unlink_failure_witness:
  "fst (fs_unlink ''out/b.mkv''
          (snd (fs_access ''out/b.mkv''
             (snd (ensureDir ''out'' (failing_world (Unlink ''out/b.mkv'') EACCES)))))) =
     Inl (sys_error EACCES (Unlink ''out/b.mkv'')) \<and>
   fst (renameFile ''in/a.mkv'' ''b.mkv'' (example_options True True)
          (failing_world (Unlink ''out/b.mkv'') EACCES)) = Inr ''out/b.mkv'' \<and>
   trace (snd (renameFile ''in/a.mkv'' ''b.mkv'' (example_options True True)
          (failing_world (Unlink ''out/b.mkv'') EACCES))) =
     [Mkdir ''out'', Access ''out/b.mkv'', Unlink ''out/b.mkv'', Rename ''in/a.mkv'' ''out/b.mkv'']"
proof -
  let ?w = "failing_world (Unlink ''out/b.mkv'') EACCES"
  let ?w1 = "snd (ensureDir ''out'' ?w)"
  let ?w2 = "snd (fs_access ''out/b.mkv'' ?w1)"
  let ?w3 = "snd (fs_unlink ''out/b.mkv'' ?w2)"
  let ?options = "example_options True True"
  have ap: "applyFlag ?options" by (simp add: example_defs)
  have dir: "''out'' = (if truthy_string (targetDir ?options) then the (targetDir ?options)
                        else path_dirname ''in/a.mkv'')"
    by (simp add: example_defs)
  have dest: "''out/b.mkv'' = path_join ''out'' ''b.mkv''" by (simp add: example_paths)
  have ne: "path_resolve (cwd ?w) ''in/a.mkv'' \<noteq> path_resolve (cwd ?w) ''out/b.mkv''"
    by (simp add: failing_world_def example_world_def example_paths)
  have mk: "ensureDir ''out'' ?w = (Inr (), ?w1)" by (simp add: run_defs)
  have ex: "fs_access ''out/b.mkv'' ?w1 = (Inr (), ?w2)" by (simp add: run_defs)
  have rp: "truthy_bool (replace ?options)" by (simp add: example_defs)
  have un: "fs_unlink ''out/b.mkv'' ?w2 = (Inl (sys_error EACCES (Unlink ''out/b.mkv'')), ?w3)"
    by (simp add: run_defs)
  have cd: "code (sys_error EACCES (Unlink ''out/b.mkv'')) \<noteq> Some ENOENT"
    by (simp add: sys_error_def)
  from renameFile_swallows_unlink_failure [OF ap dir dest ne mk ex rp un cd]
  have eq: "renameFile ''in/a.mkv'' ''b.mkv'' ?options ?w = move_file ''in/a.mkv'' ''out/b.mkv'' ?w3"
    by simp
  have r: "fst (move_file ''in/a.mkv'' ''out/b.mkv'' ?w3) = Inr ''out/b.mkv''"
    by (simp add: move_file_def run_defs)
  have t: "trace (snd (move_file ''in/a.mkv'' ''out/b.mkv'' ?w3)) =
     [Mkdir ''out'', Access ''out/b.mkv'', Unlink ''out/b.mkv'', Rename ''in/a.mkv'' ''out/b.mkv'']"
    by (simp add: move_file_def run_defs)
  have u: "fst (fs_unlink ''out/b.mkv'' ?w2) = Inl (sys_error EACCES (Unlink ''out/b.mkv''))"
    by (simp add: run_defs)
  from eq r t u show ?thesis by simp
qed

section \<open>Properties of the parser\<close>

subsection \<open>Results of the matcher\<close>

lemma matches_Cls_iff:
  "(c, r) \<in> set (matches (Cls P) s) \<longleftrightarrow> c = [] \<and> (\<exists>x. s = x # r \<and> P x)"
  by (cases s) auto

lemma matches_Cat_iff:
  "(c, r) \<in> set (matches (Cat a b) s) \<longleftrightarrow>
   (\<exists>ca cb r1. (ca, r1) \<in> set (matches a s) \<and> (cb, r) \<in> set (matches b r1) \<and> c = ca @ cb)"
  by (auto simp: image_iff) force

lemma matches_Alt_iff:
  "(c, r) \<in> set (matches (Alt a b) s) \<longleftrightarrow>
   (c, r) \<in> set (matches a s) \<or> (c, r) \<in> set (matches b s)"
  by simp

lemma matches_Grp_iff:
  "(c, r) \<in> set (matches (Grp a) s) \<longleftrightarrow>
   (\<exists>ca. (ca, r) \<in> set (matches a s) \<and> c = take (length s - length r) s # ca)"
proof
  assume "(c, r) \<in> set (matches (Grp a) s)"
  then show "\<exists>ca. (ca, r) \<in> set (matches a s) \<and> c = take (length s - length r) s # ca"
    by auto
next
  assume "\<exists>ca. (ca, r) \<in> set (matches a s) \<and> c = take (length s - length r) s # ca"
  then obtain ca where ca: "(ca, r) \<in> set (matches a s)"
    and c: "c = take (length s - length r) s # ca" by blast
  from ca c show "(c, r) \<in> set (matches (Grp a) s)"
    by (auto simp: image_iff intro!: bexI [of _ "(ca, r)"])
qed

lemma matches_Greedy_iff:
  "(c, r) \<in> set (matches (Greedy P lo hi) s) \<longleftrightarrow>
   c = [] \<and> (\<exists>j. lo \<le> j \<and> j \<le> run_length P hi s \<and> r = drop j s)"
  by (auto simp: image_iff)

lemma matches_Lazy_iff:
  "(c, r) \<in> set (matches (Lazy P lo hi) s) \<longleftrightarrow>
   c = [] \<and> (\<exists>j. lo \<le> j \<and> j \<le> run_length P hi s \<and> r = drop j s)"
  by (auto simp: image_iff)

lemma run_length_le: "run_length P hi s \<le> length s"
  by (auto simp: run_length_def Let_def length_takeWhile_le min.coboundedI2 split: option.splits)

lemma run_length_bound: "run_length P (Some h) s \<le> h"
  by (simp add: run_length_def Let_def)

lemma run_length_all:
  assumes "j \<le> run_length P hi s"
  shows "\<forall>c \<in> set (take j s). P c"
proof -
  from assms have "j \<le> length (takeWhile P s)"
    by (auto simp: run_length_def Let_def split: option.splits)
  then have "take j s = take j (takeWhile P s)"
    by (metis takeWhile_dropWhile_id take_append min.absorb2 take_all_iff append_Nil2 diff_is_0_eq' take_0 length_take min.commute)
  then show ?thesis
    by (metis in_set_takeD set_takeWhileD)
qed

text \<open>Every way to match leaves an end piece of the input.\<close>

lemma matches_rest:
  "(c, r) \<in> set (matches re s) \<Longrightarrow> \<exists>pre. s = pre @ r"
proof (induction re arbitrary: c r s)
  case (Cls P)
  then show ?case by (auto simp: matches_Cls_iff intro: exI [of _ "[x]" for x])
next
  case (Cat a b)
  then obtain ca cb r1 where "(ca, r1) \<in> set (matches a s)" "(cb, r) \<in> set (matches b r1)"
    unfolding matches_Cat_iff by blast
  with Cat.IH show ?case by (metis append.assoc)
next
  case (Alt a b)
  then show ?case by (auto simp: matches_Alt_iff)
next
  case (Grp a)
  then show ?case unfolding matches_Grp_iff by blast
next
  case (Greedy P lo hi)
  then show ?case unfolding matches_Greedy_iff by (metis append_take_drop_id)
next
  case (Lazy P lo hi)
  then show ?case unfolding matches_Lazy_iff by (metis append_take_drop_id)
qed

lemma exec_Some:
  "exec re s = Some m \<Longrightarrow>
   \<exists>s' caps r. suffix s' s \<and> (caps, r) \<in> set (matches re s') \<and>
     m = take (length s' - length r) s' # caps"
proof (induction re s rule: exec.induct)
  case (1 re s)
  show ?case
  proof (cases "matches re s")
    case (Cons x xs)
    obtain caps r where x: "x = (caps, r)" by (cases x)
    with Cons 1(2) have "m = take (length s - length r) s # caps" by simp
    moreover have "(caps, r) \<in> set (matches re s)" using Cons x by simp
    ultimately show ?thesis by (metis suffix_order.order_refl)
  next
    case Nil
    show ?thesis
    proof (cases s)
      case Nil
      with \<open>matches re s = []\<close> 1(2) show ?thesis by simp
    next
      case (Cons c cs)
      with \<open>matches re s = []\<close> 1(2) have "exec re cs = Some m" by simp
      with 1(1) [OF \<open>matches re s = []\<close> Cons] Cons show ?thesis
        by (metis suffix_ConsI)
    qed
  qed
qed

subsection \<open>Groups of a repeated class\<close>

lemma take_length_drop: "j \<le> length s \<Longrightarrow> take (length s - length (drop j s)) s = take j s"
  by simp

lemma matches_Grp_Greedy:
  assumes "(c, r) \<in> set (matches (Grp (Greedy P lo hi)) s)"
  shows "\<exists>d. c = [d] \<and> lo \<le> length d \<and> length d \<le> run_length P hi s \<and>
             (\<forall>x\<in>set d. P x) \<and> s = d @ r"
proof -
  from assms obtain j where j: "lo \<le> j" "j \<le> run_length P hi s" "r = drop j s"
    and c: "c = [take (length s - length r) s]"
    unfolding matches_Grp_iff matches_Greedy_iff by blast
  from j(2) have le: "j \<le> length s" using run_length_le [of P hi s] by simp
  with j(3) c have "c = [take j s]" by simp
  moreover have "length (take j s) = j" using le by simp
  moreover have "\<forall>x\<in>set (take j s). P x" using j(2) by (rule run_length_all)
  moreover have "s = take j s @ r" using j(3) by simp
  ultimately show ?thesis using j(1,2) by metis
qed

lemma matches_Grp_Lazy:
  assumes "(c, r) \<in> set (matches (Grp (Lazy P lo hi)) s)"
  shows "\<exists>d. c = [d] \<and> lo \<le> length d \<and> length d \<le> run_length P hi s \<and>
             (\<forall>x\<in>set d. P x) \<and> s = d @ r"
proof -
  from assms obtain j where j: "lo \<le> j" "j \<le> run_length P hi s" "r = drop j s"
    and c: "c = [take (length s - length r) s]"
    unfolding matches_Grp_iff matches_Lazy_iff by blast
  from j(2) have le: "j \<le> length s" using run_length_le [of P hi s] by simp
  with j(3) c have "c = [take j s]" by simp
  moreover have "length (take j s) = j" using le by simp
  moreover have "\<forall>x\<in>set (take j s). P x" using j(2) by (rule run_length_all)
  moreover have "s = take j s @ r" using j(3) by simp
  ultimately show ?thesis using j(1,2) by metis
qed

lemma matches_no_group_Greedy: "(c, r) \<in> set (matches (Greedy P lo hi) s) \<Longrightarrow> c = []"
  unfolding matches_Greedy_iff by blast

lemma matches_no_group_Cls: "(c, r) \<in> set (matches (Cls P) s) \<Longrightarrow> c = []"
  unfolding matches_Cls_iff by blast

lemma tvRegex1_captures:
  assumes "(caps, r) \<in> set (matches tvRegex1 s)"
  shows "\<exists>t d1 d2. caps = [t, d1, d2] \<and> digit_group d1 \<and> digit_group d2"
proof -
  from assms obtain c1 c2 c3 c4 c5 c6 r1 r2 r3 r4 r5 where
    g1: "(c1, r1) \<in> set (matches (Grp (Lazy dot 1 None)) s)"
    and g2: "(c2, r2) \<in> set (matches (Greedy is_sep 0 None) r1)"
    and g3: "(c3, r3) \<in> set (matches (Cls (\<lambda>c. c \<in> {CHR ''s'', CHR ''S''})) r2)"
    and g4: "(c4, r4) \<in> set (matches (Grp (Greedy is_digit 1 (Some 2))) r3)"
    and g5: "(c5, r5) \<in> set (matches (Cls (\<lambda>c. c \<in> {CHR ''e'', CHR ''E''})) r4)"
    and g6: "(c6, r) \<in> set (matches (Grp (Greedy is_digit 2 (Some 2))) r5)"
    and caps: "caps = c1 @ c2 @ c3 @ c4 @ c5 @ c6"
    unfolding tvRegex1_def matches_Cat_iff by blast
  from matches_Grp_Lazy [OF g1] obtain t where t: "c1 = [t]" by blast
  from matches_Grp_Greedy [OF g4] obtain d1 where
    d1: "c4 = [d1]" "1 \<le> length d1" "length d1 \<le> run_length is_digit (Some 2) r3" "\<forall>x\<in>set d1. is_digit x"
    by blast
  from matches_Grp_Greedy [OF g6] obtain d2 where
    d2: "c6 = [d2]" "2 \<le> length d2" "length d2 \<le> run_length is_digit (Some 2) r5" "\<forall>x\<in>set d2. is_digit x"
    by blast
  have "digit_group d1" using d1 run_length_bound [of is_digit 2 r3]
    by (auto simp: digit_group_def)
  moreover have "digit_group d2" using d2 run_length_bound [of is_digit 2 r5]
    by (auto simp: digit_group_def)
  moreover have "caps = [t, d1, d2]"
    using caps t d1(1) d2(1) matches_no_group_Greedy [OF g2] matches_no_group_Cls [OF g3]
      matches_no_group_Cls [OF g5] by simp
  ultimately show ?thesis by blast
qed

lemma tvRegex2_captures:
  assumes "(caps, r) \<in> set (matches tvRegex2 s)"
  shows "\<exists>t d1 d2. caps = [t, d1, d2] \<and> digit_group d1 \<and> digit_group d2"
proof -
  from assms obtain c1 c2 c4 c5 c6 r1 r2 r4 r5 where
    g1: "(c1, r1) \<in> set (matches (Grp (Lazy dot 1 None)) s)"
    and g2: "(c2, r2) \<in> set (matches (Greedy is_sep 0 None) r1)"
    and g4: "(c4, r4) \<in> set (matches (Grp (Greedy is_digit 1 (Some 2))) r2)"
    and g5: "(c5, r5) \<in> set (matches (Cls (\<lambda>c. c \<in> {CHR ''x'', CHR ''X''})) r4)"
    and g6: "(c6, r) \<in> set (matches (Grp (Greedy is_digit 2 (Some 2))) r5)"
    and caps: "caps = c1 @ c2 @ c4 @ c5 @ c6"
    unfolding tvRegex2_def matches_Cat_iff by blast
  from matches_Grp_Lazy [OF g1] obtain t where t: "c1 = [t]" by blast
  from matches_Grp_Greedy [OF g4] obtain d1 where
    d1: "c4 = [d1]" "1 \<le> length d1" "length d1 \<le> run_length is_digit (Some 2) r2" "\<forall>x\<in>set d1. is_digit x"
    by blast
  from matches_Grp_Greedy [OF g6] obtain d2 where
    d2: "c6 = [d2]" "2 \<le> length d2" "length d2 \<le> run_length is_digit (Some 2) r5" "\<forall>x\<in>set d2. is_digit x"
    by blast
  have "digit_group d1" using d1 run_length_bound [of is_digit 2 r2]
    by (auto simp: digit_group_def)
  moreover have "digit_group d2" using d2 run_length_bound [of is_digit 2 r5]
    by (auto simp: digit_group_def)
  moreover have "caps = [t, d1, d2]"
    using caps t d1(1) d2(1) matches_no_group_Greedy [OF g2] matches_no_group_Cls [OF g5] by simp
  ultimately show ?thesis by blast
qed

lemma movieRegex_captures:
  assumes "(caps, r) \<in> set (matches movieRegex s)"
  shows "\<exists>t y c. caps = [t, y, c] \<and> year_group y"
proof -
  let ?century = "Grp (Alt (Cat (Chr CHR ''1'') (Chr CHR ''9'')) (Cat (Chr CHR ''2'') (Chr CHR ''0'')))"
  let ?year = "Grp (Cat ?century (Greedy is_digit 2 (Some 2)))"
  from assms obtain c1 c2 c3 c4 c5 r1 r2 r3 r4 where
    g1: "(c1, r1) \<in> set (matches (Grp (Lazy dot 1 None)) s)"
    and g2: "(c2, r2) \<in> set (matches (Greedy is_sep 0 None) r1)"
    and g3: "(c3, r3) \<in> set (matches (Greedy (\<lambda>c. c = CHR ''('') 0 (Some 1)) r2)"
    and g4: "(c4, r4) \<in> set (matches ?year r3)"
    and g5: "(c5, r) \<in> set (matches (Greedy (\<lambda>c. c = CHR '')'') 0 (Some 1)) r4)"
    and caps: "caps = c1 @ c2 @ c3 @ c4 @ c5"
    unfolding movieRegex_def matches_Cat_iff by blast
  from matches_Grp_Lazy [OF g1] obtain t where t: "c1 = [t]" by blast
  from g4 obtain ci where ci: "(ci, r4) \<in> set (matches (Cat ?century (Greedy is_digit 2 (Some 2))) r3)"
    and c4: "c4 = take (length r3 - length r4) r3 # ci"
    unfolding matches_Grp_iff by blast
  from ci obtain cc cd rc where
    cc: "(cc, rc) \<in> set (matches ?century r3)"
    and cd: "(cd, r4) \<in> set (matches (Greedy is_digit 2 (Some 2)) rc)"
    and ci': "ci = cc @ cd"
    unfolding matches_Cat_iff by blast
  from cc have cen: "cc = [take (length r3 - length rc) r3]"
    and r3: "r3 = ''19'' @ rc \<or> r3 = ''20'' @ rc"
    by (auto simp: matches_Grp_iff matches_Alt_iff matches_Cat_iff matches_Cls_iff Chr_def)
  from cd obtain j where j: "2 \<le> j" "j \<le> run_length is_digit (Some 2) rc" "r4 = drop j rc" and cd': "cd = []"
    unfolding matches_Greedy_iff by blast
  from j(1,2) run_length_bound [of is_digit 2 rc] have j2: "j = 2" by simp
  from j(2) j2 have dig: "\<forall>x\<in>set (take 2 rc). is_digit x" using run_length_all by blast
  from j(2) j2 run_length_le [of is_digit "Some 2" rc] have len: "2 \<le> length rc" by simp
  then obtain a b rest where rc: "rc = a # b # rest"
    by (metis Suc_le_length_iff numeral_2_eq_2)
  with dig have ab: "is_digit a" "is_digit b" by simp_all
  from j(3) j2 rc have r4: "r4 = rest" by simp
  have "take (length r3 - length r4) r3 = ''19'' @ [a, b] \<or>
        take (length r3 - length r4) r3 = ''20'' @ [a, b]"
    using r3 rc r4 by auto
  then have "year_group (take (length r3 - length r4) r3)"
    using ab unfolding year_group_def by blast
  moreover have "caps = [t, take (length r3 - length r4) r3, take (length r3 - length rc) r3]"
    using caps t c4 ci' cen cd' matches_no_group_Greedy [OF g2] matches_no_group_Greedy [OF g3]
      matches_no_group_Greedy [OF g5] by simp
  ultimately show ?thesis by blast
qed

subsection \<open>\<open>parseInt\<close> on digit strings\<close>

lemma digit_not_space: "is_digit c \<Longrightarrow> \<not> is_space c"
  by (auto simp: is_digit_def is_space_def)

lemma digit_not_sign: "is_digit c \<Longrightarrow> c \<noteq> CHR ''-'' \<and> c \<noteq> CHR ''+''"
  by (auto simp: is_digit_def)

lemma digit_value_le: "is_digit c \<Longrightarrow> digit_value c \<le> 9"
  by (auto simp: is_digit_def digit_value_def)

lemma parseInt_digits:
  assumes "ds \<noteq> []" and "\<forall>c\<in>set ds. is_digit c"
  shows "parseInt ds = Some (int (digits_value ds))"
proof -
  from assms obtain c cs where ds: "ds = c # cs" by (cases ds) auto
  with assms(2) have c: "is_digit c" by simp
  have sp: "dropWhile is_space ds = ds" using ds c digit_not_space by simp
  have sg: "hd ds \<noteq> CHR ''-''" "hd ds \<noteq> CHR ''+''" using ds c digit_not_sign by auto
  have tw: "takeWhile is_digit ds = ds" using assms(2) by (simp add: takeWhile_eq_all_conv)
  show ?thesis by (simp add: parseInt_def Let_def sp sg tw assms(1))
qed

lemma parseInt_digit_group:
  assumes "digit_group d"
  shows "\<exists>n. parseInt d = Some n \<and> 0 \<le> n \<and> n \<le> 99"
proof -
  from assms have ne: "d \<noteq> []" and len: "length d \<le> 2" and dig: "\<forall>c\<in>set d. is_digit c"
    by (auto simp: digit_group_def)
  have "digits_value d \<le> 99"
  proof (cases d)
    case Nil
    with ne show ?thesis by simp
  next
    case (Cons a as)
    show ?thesis
    proof (cases as)
      case Nil
      with Cons dig digit_value_le [of a] show ?thesis by (simp add: digits_value_def)
    next
      case (Cons b bs)
      with \<open>d = a # as\<close> len have "bs = []" by simp
      with Cons \<open>d = a # as\<close> dig digit_value_le [of a] digit_value_le [of b]
      show ?thesis by (simp add: digits_value_def)
    qed
  qed
  with parseInt_digits [OF ne dig] show ?thesis by simp
qed

lemma parseInt_year_group:
  assumes "year_group y"
  shows "\<exists>n. parseInt y = Some n \<and> 1900 \<le> n \<and> n \<le> 2099"
proof -
  from assms obtain a b where ab: "is_digit a" "is_digit b"
    and y: "y = ''19'' @ [a, b] \<or> y = ''20'' @ [a, b]"
    unfolding year_group_def by blast
  from y have ne: "y \<noteq> []" by auto
  from y ab have dig: "\<forall>c\<in>set y. is_digit c" by (auto simp: is_digit_def)
  from y digit_value_le [OF ab(1)] digit_value_le [OF ab(2)]
  have "1900 \<le> digits_value y \<and> digits_value y \<le> 2099"
    by (auto simp: digits_value_def digit_value_def)
  with parseInt_digits [OF ne dig] show ?thesis by simp
qed

subsection \<open>What \<open>exec\<close> returns for the three patterns\<close>

lemma exec_tvRegex1:
  assumes "exec tvRegex1 s = Some m"
  shows "\<exists>w t d1 d2. m = [w, t, d1, d2] \<and> digit_group d1 \<and> digit_group d2"
  using exec_Some [OF assms] tvRegex1_captures by blast

lemma exec_tvRegex2:
  assumes "exec tvRegex2 s = Some m"
  shows "\<exists>w t d1 d2. m = [w, t, d1, d2] \<and> digit_group d1 \<and> digit_group d2"
  using exec_Some [OF assms] tvRegex2_captures by blast

lemma exec_movieRegex:
  assumes "exec movieRegex s = Some m"
  shows "\<exists>w t y c. m = [w, t, y, c] \<and> year_group y"
  using exec_Some [OF assms] movieRegex_captures by blast

text \<open>
  C6, as the code has it. Every record that \<open>parseFilename\<close> returns has a title that
  is an output of the normalizer. A TV record carries a season and an episode between 0
  and 99 (zero included: the digits are not range-checked) and no year. A Movie record
  carries no season and no episode; its year, when present, lies between 1900 and 2099,
  and when the year is absent (the fallback rule) the title is not empty.
\<close>

theorem parseFilename_record_invariant:
  assumes "parseFilename fullname = Some r"
  shows "(\<exists>raw. title r = titleCase (cleanTitle raw)) \<and>
         (mediaType r = TV \<longrightarrow>
            (\<exists>s e. season r = Some s \<and> episode r = Some e \<and>
                   0 \<le> s \<and> s \<le> 99 \<and> 0 \<le> e \<and> e \<le> 99) \<and>
            year r = None) \<and>
         (mediaType r = Movie \<longrightarrow>
            season r = None \<and> episode r = None \<and>
            (case year r of None \<Rightarrow> title r \<noteq> [] | Some y \<Rightarrow> 1900 \<le> y \<and> y \<le> 2099))"
proof -
  let ?ext = "path_extname fullname"
  let ?name = "path_basename fullname ?ext"
  let ?tv = "case exec tvRegex1 ?name of Some m \<Rightarrow> Some m | None \<Rightarrow> exec tvRegex2 ?name"
  show ?thesis
  proof (cases ?tv)
    case (Some m)
    then have "exec tvRegex1 ?name = Some m \<or> exec tvRegex2 ?name = Some m"
      by (auto split: option.splits)
    then obtain w t d1 d2 where m: "m = [w, t, d1, d2]" and d: "digit_group d1" "digit_group d2"
      using exec_tvRegex1 exec_tvRegex2 by blast
    from parseInt_digit_group [OF d(1)] obtain s where s: "parseInt d1 = Some s" "0 \<le> s" "s \<le> 99"
      by blast
    from parseInt_digit_group [OF d(2)] obtain e where e: "parseInt d2 = Some e" "0 \<le> e" "e \<le> 99"
      by blast
    from assms Some m s(1) e(1)
    have r: "r = \<lparr>mediaType = TV, title = titleCase (cleanTitle t), season = Some s,
                   episode = Some e, year = None, ext = ?ext, originalName = ?name\<rparr>"
      by (simp add: parseFilename_def Let_def)
    show ?thesis using s(2,3) e(2,3) by (auto simp: r)
  next
    case None
    note tv = this
    show ?thesis
    proof (cases "exec movieRegex ?name")
      case (Some m)
      then obtain w t y c where m: "m = [w, t, y, c]" and yg: "year_group y"
        using exec_movieRegex by blast
      from parseInt_year_group [OF yg] obtain n where n: "parseInt y = Some n" "1900 \<le> n" "n \<le> 2099"
        by blast
      from assms tv Some m n(1)
      have r: "r = \<lparr>mediaType = Movie, title = titleCase (cleanTitle t), season = None,
                     episode = None, year = Some n, ext = ?ext, originalName = ?name\<rparr>"
        by (simp add: parseFilename_def Let_def)
      show ?thesis using n(2,3) by (auto simp: r)
    next
      case None
      with assms tv
      have r: "r = \<lparr>mediaType = Movie, title = titleCase (cleanTitle ?name), season = None,
                     episode = None, year = None, ext = ?ext, originalName = ?name\<rparr>"
        and ne: "titleCase (cleanTitle ?name) \<noteq> []"
        by (auto simp: parseFilename_def Let_def split: if_splits)
      show ?thesis using ne by (auto simp: r)
    qed
  qed
qed

text \<open>
  C6 as stated fails: season 0 is not a positive integer.
\<close>

theorem parseFilename_season_zero:
  "parseFilename ''Show.S00E01.mkv'' =
     Some \<lparr>mediaType = TV, title = ''Show'', season = Some 0, episode = Some 1,
           year = None, ext = ''.mkv'', originalName = ''Show.S00E01''\<rparr>"
  by code_simp

theorem parseFilename_record_invariant_witness:
  "parseFilename ''Show.Name.S01E02.mkv'' =
     Some \<lparr>mediaType = TV, title = ''Show Name'', season = Some 1, episode = Some 2,
           year = None, ext = ''.mkv'', originalName = ''Show.Name.S01E02''\<rparr> \<and>
   parseFilename ''Movie.Name.2007.mkv'' =
     Some \<lparr>mediaType = Movie, title = ''Movie Name'', season = None, episode = None,
           year = Some 2007, ext = ''.mkv'', originalName = ''Movie.Name.2007''\<rparr> \<and>
   (\<exists>raw. ''Show Name'' = titleCase (cleanTitle raw)) \<and>
   (\<exists>raw. ''Movie Name'' = titleCase (cleanTitle raw))"
proof -
  let ?tv = "\<lparr>mediaType = TV, title = ''Show Name'', season = Some 1, episode = Some 2,
           year = None, ext = ''.mkv'', originalName = ''Show.Name.S01E02''\<rparr>"
  let ?movie = "\<lparr>mediaType = Movie, title = ''Movie Name'', season = None, episode = None,
           year = Some 2007, ext = ''.mkv'', originalName = ''Movie.Name.2007''\<rparr>"
  have tv: "parseFilename ''Show.Name.S01E02.mkv'' = Some ?tv" by code_simp
  have movie: "parseFilename ''Movie.Name.2007.mkv'' = Some ?movie" by code_simp
  from parseFilename_record_invariant [OF tv] parseFilename_record_invariant [OF movie] tv movie
  show ?thesis by simp
qed

text \<open>
  The TV and the year rule do not look at the normalized title, so a prefix made of
  separators only gives a record with an empty title; the fallback rule alone refuses one.
\<close>

lemma parseFilename_empty_title:
  "parseFilename ''-S01E02.mkv'' =
     Some \<lparr>mediaType = TV, title = [], season = Some 1, episode = Some 2,
           year = None, ext = ''.mkv'', originalName = ''-S01E02''\<rparr>"
  by code_simp

subsection \<open>The original name\<close>

lemma last_component_plain:
  assumes "CHR ''/'' \<notin> set p"
  shows "last_component p = p"
proof -
  have dw: "dropWhile (\<lambda>c. c = CHR ''/'') (rev p) = rev p"
    using assms by (cases "rev p") (auto simp: rev_swap)
  have tw: "takeWhile (\<lambda>c. c \<noteq> CHR ''/'') (rev p) = rev p"
    using assms by (auto simp: takeWhile_eq_all_conv)
  show ?thesis by (simp add: last_component_def dw tw)
qed

lemma split_at_last:
  assumes "x \<in> set c"
  shows "c = take (length c - length (takeWhile (\<lambda>y. y \<noteq> x) (rev c)) - 1) c @
             x # rev (takeWhile (\<lambda>y. y \<noteq> x) (rev c))"
proof -
  let ?e = "takeWhile (\<lambda>y. y \<noteq> x) (rev c)"
  let ?d = "dropWhile (\<lambda>y. y \<noteq> x) (rev c)"
  from assms have "?d \<noteq> []" by simp
  moreover have "hd ?d = x" using \<open>?d \<noteq> []\<close> hd_dropWhile [of "\<lambda>y. y \<noteq> x" "rev c"] by simp
  ultimately obtain rest where d: "?d = x # rest" by (cases ?d) auto
  have "rev c = ?e @ x # rest" using d takeWhile_dropWhile_id [of "\<lambda>y. y \<noteq> x" "rev c"] by simp
  then have c: "c = rev rest @ x # rev ?e" by (metis rev_append rev.simps(2) rev_rev_ident append.assoc append_Cons append_Nil)
  then have "length c = length rest + 1 + length ?e" by (metis length_append length_rev length_Cons Suc_eq_plus1 add.assoc add.commute)
  then have "take (length c - length ?e - 1) c = rev rest" using c
    by (metis add_diff_cancel_right' append_eq_conv_conj length_rev)
  with c show ?thesis by simp
qed

lemma basename_extname_plain:
  assumes "CHR ''/'' \<notin> set p"
  shows "path_basename p (path_extname p) @ path_extname p = p"
proof (cases "path_extname p = []")
  case True
  then show ?thesis using last_component_plain [OF assms] by (simp add: path_basename_def)
next
  case False
  let ?e = "rev (takeWhile (\<lambda>x. x \<noteq> CHR ''.'') (rev p))"
  let ?stem = "take (length p - length ?e - 1) p"
  from False have dot: "CHR ''.'' \<in> set p" and stem: "?stem \<noteq> []"
    and ext: "path_extname p = CHR ''.'' # ?e"
    using last_component_plain [OF assms]
    by (auto simp: path_extname_def Let_def split: if_splits)
  from split_at_last [OF dot] have p: "p = ?stem @ CHR ''.'' # ?e" by simp
  have suf: "suffix (CHR ''.'' # ?e) p" using p by (metis suffixI)
  have ne: "CHR ''.'' # ?e \<noteq> p" using p stem by (metis append_self_conv2)
  have len: "length (CHR ''.'' # ?e) \<le> length p" using suf by (rule suffix_length_le)
  have "path_basename p (CHR ''.'' # ?e) = take (length p - length (CHR ''.'' # ?e)) p"
    using suf ne len last_component_plain [OF assms]
    by (simp add: path_basename_def Let_def del: length_Cons)
  also have "\<dots> = ?stem" by simp
  finally show ?thesis using ext p by simp
qed

text \<open>
  C8. The original-name field of a returned record should be the source filename without
  its directory path, as it came in (\<open>types.ts\<close>: the basename without path). The code
  stores \<open>path.basename(fullname, ext)\<close>, the basename with the extension taken off:
  for \<open>Show.Name.S01E02.mkv\<close> the field is \<open>Show.Name.S01E02\<close>, while the filename
  without its directory, \<open>path.basename(fullname)\<close>, is \<open>Show.Name.S01E02.mkv\<close>; the
  same happens when the name comes with a directory part.
\<close>

theorem parseFilename_originalName_drops_extension:
  "parseFilename ''Show.Name.S01E02.mkv'' =
     Some \<lparr>mediaType = TV, title = ''Show Name'', season = Some 1, episode = Some 2,
           year = None, ext = ''.mkv'', originalName = ''Show.Name.S01E02''\<rparr> \<and>
   path_basename ''Show.Name.S01E02.mkv'' [] = ''Show.Name.S01E02.mkv'' \<and>
   originalName (the (parseFilename ''Show.Name.S01E02.mkv'')) \<noteq>
     path_basename ''Show.Name.S01E02.mkv'' [] \<and>
   originalName (the (parseFilename ''/media/in/Show.Name.S01E02.mkv'')) = ''Show.Name.S01E02'' \<and>
   path_basename ''/media/in/Show.Name.S01E02.mkv'' [] = ''Show.Name.S01E02.mkv''"
  by code_simp

subsection \<open>The first way to match\<close>

lemma pattern_split:
  "tvRegex1 = Cat (Grp (Lazy dot 1 None)) tvToken1"
  "tvRegex2 = Cat (Grp (Lazy dot 1 None)) tvToken2"
  "movieRegex = Cat (Grp (Lazy dot 1 None)) movieToken"
  by (simp_all add: tvRegex1_def tvRegex2_def movieRegex_def tvToken1_def tvToken2_def movieToken_def)

lemma matches_title:
  "matches (Cat (Grp (Lazy P 1 None)) tok) s =
   concat (map (\<lambda>j. map (\<lambda>(cb, r). (take j s # cb, r)) (matches tok (drop j s)))
     [1..<Suc (length (takeWhile P s))])"
proof -
  let ?n = "length (takeWhile P s)"
  have n: "?n \<le> length s" by (rule length_takeWhile_le)
  have "matches (Cat (Grp (Lazy P 1 None)) tok) s =
        concat (map (\<lambda>j. map (\<lambda>(cb, r). (take (length s - length (drop j s)) s # cb, r))
                            (matches tok (drop j s))) [1..<Suc ?n])"
    by (simp add: run_length_def o_def split_def del: upt_Suc)
  also have "map (\<lambda>j. map (\<lambda>(cb, r). (take (length s - length (drop j s)) s # cb, r))
                            (matches tok (drop j s))) [1..<Suc ?n] =
             map (\<lambda>j. map (\<lambda>(cb, r). (take j s # cb, r)) (matches tok (drop j s))) [1..<Suc ?n]"
    by (rule map_cong [OF refl]) (use n in auto)
  finally show ?thesis .
qed

lemma concat_map_first:
  assumes "\<forall>j\<in>set xs. f j = []" and "f k = y # ys"
  shows "\<exists>more. concat (map f (xs @ k # zs)) = y # more"
proof -
  have e: "concat (map f xs) = []" using assms(1) by simp
  show ?thesis by (simp add: e assms(2))
qed

lemma first_token_Some:
  assumes "first_token tok s = Some k"
  shows "1 \<le> k" "k \<le> length s" "matches tok (drop k s) \<noteq> []"
    "\<forall>j. 1 \<le> j \<and> j < k \<longrightarrow> matches tok (drop j s) = []"
proof -
  let ?xs = "[1..<Suc (length s)]"
  from assms obtain i where i: "i < length ?xs"
    "matches tok (drop (?xs ! i) s) \<noteq> []"
    "k = ?xs ! i"
    "\<forall>j<i. \<not> matches tok (drop (?xs ! j) s) \<noteq> []"
    unfolding first_token_def find_Some_iff by blast
  from i(1) have il: "i < length s" by (simp del: upt_Suc)
  have nth: "j < length s \<Longrightarrow> ?xs ! j = Suc j" for j
    by (simp del: upt_Suc)
  from i(3) il have k: "k = Suc i" by (simp only: nth)
  show "1 \<le> k" "k \<le> length s" using k il by simp_all
  show "matches tok (drop k s) \<noteq> []" using i(2,3) by simp
  show "\<forall>j. 1 \<le> j \<and> j < k \<longrightarrow> matches tok (drop j s) = []"
  proof (intro allI impI)
    fix j assume j: "1 \<le> j \<and> j < k"
    then obtain j' where j': "j = Suc j'" "j' < i" using k by (cases j) auto
    with il have "?xs ! j' = j" by (simp only: nth)
    with i(4) j'(2) show "matches tok (drop j s) = []" by auto
  qed
qed

lemma first_token_None:
  assumes "first_token tok s = None" and "1 \<le> j" and "j \<le> length s"
  shows "matches tok (drop j s) = []"
proof -
  from assms(2,3) have "j \<in> set [1..<Suc (length s)]" by (simp del: upt_Suc)
  with assms(1) show ?thesis unfolding first_token_def find_None_iff by blast
qed

lemma exec_None:
  "(\<forall>i. matches re (drop i s) = []) \<Longrightarrow> exec re s = None"
proof (induction s)
  case Nil
  then show ?case by simp
next
  case (Cons c cs)
  from Cons.prems have "matches re (drop 0 (c # cs)) = []" by blast
  then have m: "matches re (c # cs) = []" by simp
  have "\<forall>i. matches re (drop i cs) = []"
  proof
    fix i from Cons.prems have "matches re (drop (Suc i) (c # cs)) = []" by blast
    then show "matches re (drop i cs) = []" by simp
  qed
  with Cons.IH have "exec re cs = None" by simp
  with m show ?case by simp
qed

lemma exec_title_None:
  assumes "first_token tok s = None"
  shows "exec (Cat (Grp (Lazy P 1 None)) tok) s = None"
proof (rule exec_None, rule allI)
  fix i
  let ?s = "drop i s"
  have "\<forall>j\<in>set [1..<Suc (length (takeWhile P ?s))].
          map (\<lambda>(cb, r). (take j ?s # cb, r)) (matches tok (drop j ?s)) = []"
  proof
    fix j assume "j \<in> set [1..<Suc (length (takeWhile P ?s))]"
    then have j: "1 \<le> j" "j \<le> length (takeWhile P ?s)" by (simp_all del: upt_Suc)
    from j(2) length_takeWhile_le [of P ?s] have "j \<le> length ?s" by simp
    with j(1) have "i + j \<le> length s" by simp
    with first_token_None [OF assms, of "i + j"] j(1)
    have "matches tok (drop (i + j) s) = []" by simp
    then show "map (\<lambda>(cb, r). (take j ?s # cb, r)) (matches tok (drop j ?s)) = []"
      by (simp add: add.commute)
  qed
  then show "matches (Cat (Grp (Lazy P 1 None)) tok) ?s = []"
    unfolding matches_title by simp
qed

lemma takeWhile_covers:
  assumes "\<forall>c\<in>set (take k s). P c" and "k \<le> length s"
  shows "k \<le> length (takeWhile P s)"
proof -
  have "s = take k s @ drop k s" by simp
  then have "takeWhile P s = take k s @ takeWhile P (drop k s)"
    using assms(1) by (metis takeWhile_append2)
  then show ?thesis using assms(2) by simp
qed

lemma exec_title_Some:
  assumes "first_token tok s = Some k"
    and "\<forall>c\<in>set (take k s). P c"
    and "matches tok (drop k s) = (cb, r) # others"
  shows "exec (Cat (Grp (Lazy P 1 None)) tok) s =
         Some (take (length s - length r) s # take k s # cb)"
proof -
  note ft = first_token_Some [OF assms(1)]
  let ?n = "length (takeWhile P s)"
  let ?g = "\<lambda>j. map (\<lambda>(cb, r). (take j s # cb, r)) (matches tok (drop j s))"
  have kn: "k \<le> ?n" using takeWhile_covers [OF assms(2) ft(2)] .
  have "[1..<k + (Suc ?n - k)] = [1..<k] @ [k..<k + (Suc ?n - k)]"
    using ft(1) by (intro upt_add_eq_append) simp
  then have "[1..<Suc ?n] = [1..<k] @ [k..<Suc ?n]"
    using kn by simp
  moreover have "[k..<Suc ?n] = k # [Suc k..<Suc ?n]"
    using kn by (intro upt_conv_Cons) simp
  ultimately have split: "[1..<Suc ?n] = [1..<k] @ k # [Suc k..<Suc ?n]" by simp
  have early: "\<forall>j\<in>set [1..<k]. ?g j = []" using ft(4) by simp
  have here: "?g k = (take k s # cb, r) # map (\<lambda>(cb, r). (take k s # cb, r)) others"
    using assms(3) by simp
  from concat_map_first [of "[1..<k]" ?g k _ _ "[Suc k..<Suc ?n]", OF early here]
  obtain rest where "concat (map ?g [1..<Suc ?n]) = (take k s # cb, r) # rest"
    unfolding split by blast
  then have "matches (Cat (Grp (Lazy P 1 None)) tok) s = (take k s # cb, r) # rest"
    unfolding matches_title .
  then show ?thesis by simp
qed

subsection \<open>The first way through each construct\<close>

lemma Cat_first:
  assumes "matches a s = (ca, r1) # ma" and "matches b r1 = (cb, r) # mb"
  shows "\<exists>others. matches (Cat a b) s = (ca @ cb, r) # others"
  using assms by simp

lemma Grp_first:
  assumes "matches a s = (ca, r) # ma"
  shows "\<exists>others. matches (Grp a) s = (take (length s - length r) s # ca, r) # others"
  using assms by simp

lemma Greedy_first:
  assumes "lo \<le> run_length P hi s"
  shows "\<exists>others. matches (Greedy P lo hi) s = ([], drop (run_length P hi s) s) # others"
  using assms by simp

lemma Cls_first: "P c \<Longrightarrow> matches (Cls P) (c # cs) = [([], cs)]"
  by simp

lemma run_length_exact:
  assumes "\<forall>c\<in>set d. P c" and "rest = [] \<or> \<not> P (hd rest)"
    and "case hi of None \<Rightarrow> True | Some h \<Rightarrow> length d \<le> h"
  shows "run_length P hi (d @ rest) = length d"
proof -
  have "takeWhile P (d @ rest) = d @ takeWhile P rest"
    using assms(1) by (simp add: takeWhile_append2)
  moreover have "takeWhile P rest = []" using assms(2) by (cases rest) auto
  ultimately show ?thesis using assms(3)
    by (simp add: run_length_def Let_def split: option.splits)
qed

lemma run_length_capped:
  assumes "\<forall>c\<in>set d. P c" and "h \<le> length d"
  shows "run_length P (Some h) (d @ rest) = h"
proof -
  have "takeWhile P (d @ rest) = d @ takeWhile P rest"
    using assms(1) by (simp add: takeWhile_append2)
  then show ?thesis using assms(2) by (simp add: run_length_def Let_def)
qed

lemma Greedy_group_first:
  assumes "\<forall>c\<in>set d. P c" and "lo \<le> length d" and "run_length P hi (d @ rest) = length d"
  shows "\<exists>others. matches (Grp (Greedy P lo hi)) (d @ rest) = ([d], rest) # others"
proof -
  from Greedy_first [of lo P hi "d @ rest"] assms(2,3)
  obtain others where "matches (Greedy P lo hi) (d @ rest) = ([], rest) # others" by auto
  from Grp_first [OF this] show ?thesis by simp
qed

lemma sep_not_marker:
  "is_digit c \<Longrightarrow> \<not> is_sep c"
  "c \<in> {CHR ''s'', CHR ''S''} \<Longrightarrow> \<not> is_sep c"
  "c \<in> {CHR ''e'', CHR ''E''} \<Longrightarrow> \<not> is_digit c"
  "c \<in> {CHR ''x'', CHR ''X''} \<Longrightarrow> \<not> is_digit c"
  by (auto simp: is_digit_def is_sep_def)

lemma separators_first:
  assumes "\<forall>c\<in>set sep. is_sep c" and "rest = [] \<or> \<not> is_sep (hd rest)"
  shows "\<exists>others. matches (Greedy is_sep 0 None) (sep @ rest) = ([], rest) # others"
proof -
  have "run_length is_sep None (sep @ rest) = length sep"
    using assms by (intro run_length_exact) simp_all
  with Greedy_first [of 0 is_sep None "sep @ rest"] show ?thesis by simp
qed

lemma tvToken1_first:
  assumes "\<forall>c\<in>set sep. is_sep c"
    and "sc \<in> {CHR ''s'', CHR ''S''}" and "digit_group d1"
    and "ec \<in> {CHR ''e'', CHR ''E''}" and "length d2 = 2" and "\<forall>c\<in>set d2. is_digit c"
  shows "\<exists>others. matches tvToken1 (sep @ sc # d1 @ ec # d2 @ rest) = ([d1, d2], rest) # others"
proof -
  from assms(3) have d1: "d1 \<noteq> []" "length d1 \<le> 2" "\<forall>c\<in>set d1. is_digit c"
    by (auto simp: digit_group_def)
  obtain o1 where s1: "matches (Greedy is_sep 0 None) (sep @ sc # d1 @ ec # d2 @ rest) =
      ([], sc # d1 @ ec # d2 @ rest) # o1"
    using separators_first [OF assms(1), of "sc # d1 @ ec # d2 @ rest"] sep_not_marker(2) [OF assms(2)]
    by auto
  have s2: "matches (Cls (\<lambda>c. c \<in> {CHR ''s'', CHR ''S''})) (sc # d1 @ ec # d2 @ rest) =
      [([], d1 @ ec # d2 @ rest)]"
    using assms(2) by simp
  have "run_length is_digit (Some 2) (d1 @ ec # d2 @ rest) = length d1"
    using d1 sep_not_marker(3) [OF assms(4)] by (intro run_length_exact) simp_all
  with Greedy_group_first [of d1 is_digit 1 "Some 2" "ec # d2 @ rest"] d1
  obtain o3 where s3: "matches (Grp (Greedy is_digit 1 (Some 2))) (d1 @ ec # d2 @ rest) =
      ([d1], ec # d2 @ rest) # o3"
    by (cases d1) auto
  have s4: "matches (Cls (\<lambda>c. c \<in> {CHR ''e'', CHR ''E''})) (ec # d2 @ rest) = [([], d2 @ rest)]"
    using assms(4) by simp
  have "run_length is_digit (Some 2) (d2 @ rest) = length d2"
    using assms(5,6) run_length_capped [of d2 is_digit 2 rest] by simp
  with Greedy_group_first [of d2 is_digit 2 "Some 2" rest] assms(5,6)
  obtain o5 where s5: "matches (Grp (Greedy is_digit 2 (Some 2))) (d2 @ rest) = ([d2], rest) # o5"
    by auto
  from Cat_first [OF s4 s5] obtain o6 where
    "matches (Cat (Cls (\<lambda>c. c \<in> {CHR ''e'', CHR ''E''})) (Grp (Greedy is_digit 2 (Some 2))))
       (ec # d2 @ rest) = ([d2], rest) # o6" by auto
  from Cat_first [OF s3 this] obtain o7 where
    "matches (Cat (Grp (Greedy is_digit 1 (Some 2)))
       (Cat (Cls (\<lambda>c. c \<in> {CHR ''e'', CHR ''E''})) (Grp (Greedy is_digit 2 (Some 2)))))
       (d1 @ ec # d2 @ rest) = ([d1, d2], rest) # o7" by auto
  from Cat_first [OF s2 this] obtain o8 where
    "matches (Cat (Cls (\<lambda>c. c \<in> {CHR ''s'', CHR ''S''})) (Cat (Grp (Greedy is_digit 1 (Some 2)))
       (Cat (Cls (\<lambda>c. c \<in> {CHR ''e'', CHR ''E''})) (Grp (Greedy is_digit 2 (Some 2))))))
       (sc # d1 @ ec # d2 @ rest) = ([d1, d2], rest) # o8" by auto
  from Cat_first [OF s1 this] show ?thesis unfolding tvToken1_def by auto
qed

lemma tvToken2_first:
  assumes "\<forall>c\<in>set sep. is_sep c" and "digit_group d1"
    and "xc \<in> {CHR ''x'', CHR ''X''}" and "length d2 = 2" and "\<forall>c\<in>set d2. is_digit c"
  shows "\<exists>others. matches tvToken2 (sep @ d1 @ xc # d2 @ rest) = ([d1, d2], rest) # others"
proof -
  from assms(2) have d1: "d1 \<noteq> []" "length d1 \<le> 2" "\<forall>c\<in>set d1. is_digit c"
    by (auto simp: digit_group_def)
  then have "\<not> is_sep (hd (d1 @ xc # d2 @ rest))"
    using sep_not_marker(1) by (cases d1) auto
  then obtain o1 where s1: "matches (Greedy is_sep 0 None) (sep @ d1 @ xc # d2 @ rest) =
      ([], d1 @ xc # d2 @ rest) # o1"
    using separators_first [OF assms(1), of "d1 @ xc # d2 @ rest"] by auto
  have "run_length is_digit (Some 2) (d1 @ xc # d2 @ rest) = length d1"
    using d1 sep_not_marker(4) [OF assms(3)] by (intro run_length_exact) simp_all
  with Greedy_group_first [of d1 is_digit 1 "Some 2" "xc # d2 @ rest"] d1
  obtain o3 where s3: "matches (Grp (Greedy is_digit 1 (Some 2))) (d1 @ xc # d2 @ rest) =
      ([d1], xc # d2 @ rest) # o3"
    by (cases d1) auto
  have s4: "matches (Cls (\<lambda>c. c \<in> {CHR ''x'', CHR ''X''})) (xc # d2 @ rest) = [([], d2 @ rest)]"
    using assms(3) by simp
  have "run_length is_digit (Some 2) (d2 @ rest) = length d2"
    using assms(4,5) run_length_capped [of d2 is_digit 2 rest] by simp
  with Greedy_group_first [of d2 is_digit 2 "Some 2" rest] assms(4,5)
  obtain o5 where s5: "matches (Grp (Greedy is_digit 2 (Some 2))) (d2 @ rest) = ([d2], rest) # o5"
    by auto
  from Cat_first [OF s4 s5] obtain o6 where
    "matches (Cat (Cls (\<lambda>c. c \<in> {CHR ''x'', CHR ''X''})) (Grp (Greedy is_digit 2 (Some 2))))
       (xc # d2 @ rest) = ([d2], rest) # o6" by auto
  from Cat_first [OF s3 this] obtain o7 where
    "matches (Cat (Grp (Greedy is_digit 1 (Some 2)))
       (Cat (Cls (\<lambda>c. c \<in> {CHR ''x'', CHR ''X''})) (Grp (Greedy is_digit 2 (Some 2)))))
       (d1 @ xc # d2 @ rest) = ([d1, d2], rest) # o7" by auto
  from Cat_first [OF s1 this] show ?thesis unfolding tvToken2_def by auto
qed

subsection \<open>Extension and name of a dotted basename\<close>

lemma extname_dotted:
  assumes "CHR ''/'' \<notin> set n" and "n \<noteq> []" and "n @ CHR ''.'' # x \<noteq> ''..''"
    and "CHR ''.'' \<notin> set x" and "CHR ''/'' \<notin> set x"
  shows "path_extname (n @ CHR ''.'' # x) = CHR ''.'' # x"
proof -
  let ?p = "n @ CHR ''.'' # x"
  have plain: "CHR ''/'' \<notin> set ?p" using assms(1,5) by simp
  have tw: "takeWhile (\<lambda>y. y \<noteq> CHR ''.'') (rev ?p) = rev x"
  proof -
    have "rev ?p = rev x @ CHR ''.'' # rev n" by simp
    moreover have "takeWhile (\<lambda>y. y \<noteq> CHR ''.'') (rev x @ CHR ''.'' # rev n) =
                   takeWhile (\<lambda>y. y \<noteq> CHR ''.'') (rev x)"
      by (rule takeWhile_tail) simp
    moreover have "takeWhile (\<lambda>y. y \<noteq> CHR ''.'') (rev x) = rev x"
      using assms(4) by (auto simp: takeWhile_eq_all_conv)
    ultimately show ?thesis by (simp only:)
  qed
  have stem: "take (length ?p - length (rev x) - 1) ?p = n" by simp
  show ?thesis
    using assms(2,3) by (simp add: path_extname_def last_component_plain [OF plain] tw stem Let_def del: rev_append)
qed

lemma basename_dotted:
  assumes "CHR ''/'' \<notin> set n" and "n \<noteq> []" and "n @ CHR ''.'' # x \<noteq> ''..''"
    and "CHR ''.'' \<notin> set x" and "CHR ''/'' \<notin> set x"
  shows "path_basename (n @ CHR ''.'' # x) (CHR ''.'' # x) = n"
proof -
  let ?p = "n @ CHR ''.'' # x"
  have plain: "CHR ''/'' \<notin> set ?p" using assms(1,5) by simp
  from basename_extname_plain [OF plain] extname_dotted [OF assms]
  have "path_basename ?p (CHR ''.'' # x) @ CHR ''.'' # x = n @ CHR ''.'' # x" by simp
  then show ?thesis by simp
qed

declare exec.simps [simp del]

lemma slash_no_marker: "\<not> is_sep CHR ''/''" "\<not> is_digit CHR ''/''"
  by (simp_all add: is_sep_def is_digit_def)

lemma parseFilename_tv:
  assumes name: "CHR ''/'' \<notin> set name" "2 \<le> length name"
    and x: "CHR ''.'' \<notin> set x" "CHR ''/'' \<notin> set x"
    and m: "(case exec tvRegex1 name of Some m \<Rightarrow> Some m | None \<Rightarrow> exec tvRegex2 name) =
            Some [w, t, d1, d2]"
  shows "parseFilename (name @ CHR ''.'' # x) =
         Some \<lparr>mediaType = TV, title = titleCase (cleanTitle t), season = parseInt d1,
               episode = parseInt d2, year = None, ext = CHR ''.'' # x, originalName = name\<rparr>"
proof -
  from name(2) have ne: "name \<noteq> []" by auto
  have "length (name @ CHR ''.'' # x) \<noteq> length ''..''" using name(2) by simp
  then have nd: "name @ CHR ''.'' # x \<noteq> ''..''" by metis
  note e = extname_dotted [OF name(1) ne nd x]
  note b = basename_dotted [OF name(1) ne nd x]
  show ?thesis unfolding parseFilename_def Let_def e b m by simp
qed

text \<open>
  C5, as the code has it. Take a basename made of a title prefix (no line terminator, no
  slash), a run of separators, a season and episode token and a dotted extension (no
  further dot, no slash). For the token \<open>S\<close>, one or two digits, \<open>E\<close>, two digits, in any
  casing: if this token is the first place in the name where the pattern behind the title
  group of the first TV pattern matches, the record is a TV record with the normalized
  prefix as title, the two numbers read in base 10 and the dotted extension. For the token
  of one or two digits, \<open>x\<close> in any casing and two digits: the same holds if the first TV
  pattern matches nowhere and this token is the first place where the pattern behind the
  title group of the second TV pattern matches.
\<close>

theorem parseFilename_tv_shapes:
  assumes "\<forall>c\<in>set t. dot c \<and> c \<noteq> CHR ''/''"
    and "\<forall>c\<in>set sep. is_sep c"
    and "digit_group d1" and "length d2 = 2" and "\<forall>c\<in>set d2. is_digit c"
    and "CHR ''.'' \<notin> set x" and "CHR ''/'' \<notin> set x"
  shows "(sc \<in> {CHR ''s'', CHR ''S''} \<and> ec \<in> {CHR ''e'', CHR ''E''} \<and>
          first_token tvToken1 (t @ sep @ sc # d1 @ ec # d2) = Some (length t) \<longrightarrow>
            parseFilename (t @ sep @ sc # d1 @ ec # d2 @ CHR ''.'' # x) =
              Some \<lparr>mediaType = TV, title = titleCase (cleanTitle t),
                    season = Some (int (digits_value d1)), episode = Some (int (digits_value d2)),
                    year = None, ext = CHR ''.'' # x,
                    originalName = t @ sep @ sc # d1 @ ec # d2\<rparr>) \<and>
         (xc \<in> {CHR ''x'', CHR ''X''} \<and>
          first_token tvToken1 (t @ sep @ d1 @ xc # d2) = None \<and>
          first_token tvToken2 (t @ sep @ d1 @ xc # d2) = Some (length t) \<longrightarrow>
            parseFilename (t @ sep @ d1 @ xc # d2 @ CHR ''.'' # x) =
              Some \<lparr>mediaType = TV, title = titleCase (cleanTitle t),
                    season = Some (int (digits_value d1)), episode = Some (int (digits_value d2)),
                    year = None, ext = CHR ''.'' # x,
                    originalName = t @ sep @ d1 @ xc # d2\<rparr>)"
proof (intro conjI impI)
  from assms(3) have d1: "d1 \<noteq> []" "\<forall>c\<in>set d1. is_digit c" by (auto simp: digit_group_def)
  from assms(4) have d2: "d2 \<noteq> []" by auto
  have s1: "CHR ''/'' \<notin> set t" using assms(1) by auto
  have s2: "CHR ''/'' \<notin> set sep" using assms(2) slash_no_marker(1) by auto
  have s3: "CHR ''/'' \<notin> set d1" using d1(2) slash_no_marker(2) by auto
  have s4: "CHR ''/'' \<notin> set d2" using assms(5) slash_no_marker(2) by auto
  note slashes = s1 s2 s3 s4
  have pi: "parseInt d1 = Some (int (digits_value d1))" "parseInt d2 = Some (int (digits_value d2))"
    using parseInt_digits d1 d2 assms(5) by simp_all
  {
    assume h: "sc \<in> {CHR ''s'', CHR ''S''} \<and> ec \<in> {CHR ''e'', CHR ''E''} \<and>
          first_token tvToken1 (t @ sep @ sc # d1 @ ec # d2) = Some (length t)"
    let ?name = "t @ sep @ sc # d1 @ ec # d2"
    have "sc \<noteq> CHR ''/''" "ec \<noteq> CHR ''/''" using h by auto
    then have plain: "CHR ''/'' \<notin> set ?name"
      using slashes by auto
    have len: "2 \<le> length ?name" using assms(4) by simp
    from tvToken1_first [OF assms(2) _ assms(3) _ assms(4,5), of sc ec "[]"] h
    obtain others where tok: "matches tvToken1 (drop (length t) ?name) = ([d1, d2], []) # others"
      by auto
    have dots: "\<forall>c\<in>set (take (length t) ?name). dot c" using assms(1) by simp
    from exec_title_Some [OF _ dots tok] h
    have "exec tvRegex1 ?name = Some [?name, t, d1, d2]"
      by (simp add: pattern_split)
    then have "(case exec tvRegex1 ?name of Some m \<Rightarrow> Some m | None \<Rightarrow> exec tvRegex2 ?name) =
               Some [?name, t, d1, d2]" by simp
    from parseFilename_tv [OF plain len assms(6,7) this] pi
    show "parseFilename (t @ sep @ sc # d1 @ ec # d2 @ CHR ''.'' # x) =
              Some \<lparr>mediaType = TV, title = titleCase (cleanTitle t),
                    season = Some (int (digits_value d1)), episode = Some (int (digits_value d2)),
                    year = None, ext = CHR ''.'' # x,
                    originalName = t @ sep @ sc # d1 @ ec # d2\<rparr>"
      by simp
  }
  {
    assume h: "xc \<in> {CHR ''x'', CHR ''X''} \<and>
          first_token tvToken1 (t @ sep @ d1 @ xc # d2) = None \<and>
          first_token tvToken2 (t @ sep @ d1 @ xc # d2) = Some (length t)"
    let ?name = "t @ sep @ d1 @ xc # d2"
    have "xc \<noteq> CHR ''/''" using h by auto
    then have plain: "CHR ''/'' \<notin> set ?name"
      using slashes by auto
    have len: "2 \<le> length ?name" using assms(4) by simp
    from tvToken2_first [OF assms(2,3) _ assms(4,5), of xc "[]"] h
    obtain others where tok: "matches tvToken2 (drop (length t) ?name) = ([d1, d2], []) # others"
      by auto
    have dots: "\<forall>c\<in>set (take (length t) ?name). dot c" using assms(1) by simp
    from exec_title_Some [OF _ dots tok] h
    have "exec tvRegex2 ?name = Some [?name, t, d1, d2]"
      by (simp add: pattern_split)
    moreover have "exec tvRegex1 ?name = None"
      using h exec_title_None [of tvToken1 ?name dot] by (simp add: pattern_split)
    ultimately have "(case exec tvRegex1 ?name of Some m \<Rightarrow> Some m | None \<Rightarrow> exec tvRegex2 ?name) =
               Some [?name, t, d1, d2]" by simp
    from parseFilename_tv [OF plain len assms(6,7) this] pi
    show "parseFilename (t @ sep @ d1 @ xc # d2 @ CHR ''.'' # x) =
              Some \<lparr>mediaType = TV, title = titleCase (cleanTitle t),
                    season = Some (int (digits_value d1)), episode = Some (int (digits_value d2)),
                    year = None, ext = CHR ''.'' # x,
                    originalName = t @ sep @ d1 @ xc # d2\<rparr>"
      by simp
  }
qed

text \<open>
  C5 as stated fails when the title prefix holds a token of its own: the earliest token
  wins.
\<close>

theorem parseFilename_earlier_token_wins:
  "parseFilename ''Show.S01E01.S01E02.mkv'' =
     Some \<lparr>mediaType = TV, title = ''Show'', season = Some 1, episode = Some 1,
           year = None, ext = ''.mkv'', originalName = ''Show.S01E01.S01E02''\<rparr> \<and>
   titleCase (cleanTitle ''Show.S01E01'') = ''Show S01E01''"
  by code_simp

theorem parseFilename_tv_shapes_witness:
  "first_token tvToken1 ''Name.S01E02'' = Some (length ''Name'') \<and>
   parseFilename ''Name.S01E02.ext'' =
     Some \<lparr>mediaType = TV, title = ''Name'', season = Some 1, episode = Some 2,
           year = None, ext = ''.ext'', originalName = ''Name.S01E02''\<rparr> \<and>
   first_token tvToken1 ''Name.1x02'' = None \<and>
   first_token tvToken2 ''Name.1x02'' = Some (length ''Name'') \<and>
   parseFilename ''Name.1x02.ext'' =
     Some \<lparr>mediaType = TV, title = ''Name'', season = Some 1, episode = Some 2,
           year = None, ext = ''.ext'', originalName = ''Name.1x02''\<rparr>"
proof -
  have t: "\<forall>c\<in>set ''Name''. dot c \<and> c \<noteq> CHR ''/''" by (simp add: dot_def is_line_terminator_def)
  have sep: "\<forall>c\<in>set ''.''. is_sep c" by (simp add: is_sep_def)
  have d1: "digit_group ''01''" "digit_group ''1''" by (simp_all add: digit_group_def is_digit_def)
  have d2: "length ''02'' = 2" "\<forall>c\<in>set ''02''. is_digit c" by (simp_all add: is_digit_def)
  have x: "CHR ''.'' \<notin> set ''ext''" "CHR ''/'' \<notin> set ''ext''" by simp_all
  have f1: "first_token tvToken1 ''Name.S01E02'' = Some (length ''Name'')" by code_simp
  have f2: "first_token tvToken1 ''Name.1x02'' = None" by code_simp
  have f3: "first_token tvToken2 ''Name.1x02'' = Some (length ''Name'')" by code_simp
  have v: "digits_value ''01'' = 1" "digits_value ''1'' = 1" "digits_value ''02'' = 2"
    "titleCase (cleanTitle ''Name'') = ''Name''" by code_simp+
  from parseFilename_tv_shapes [OF t sep d1(1) d2 x, of "CHR ''S''" "CHR ''E''" "CHR ''x''"] f1 v
  have a: "parseFilename ''Name.S01E02.ext'' =
     Some \<lparr>mediaType = TV, title = ''Name'', season = Some 1, episode = Some 2,
           year = None, ext = ''.ext'', originalName = ''Name.S01E02''\<rparr>" by simp
  from parseFilename_tv_shapes [OF t sep d1(2) d2 x, of "CHR ''S''" "CHR ''E''" "CHR ''x''"] f2 f3 v
  have b: "parseFilename ''Name.1x02.ext'' =
     Some \<lparr>mediaType = TV, title = ''Name'', season = Some 1, episode = Some 2,
           year = None, ext = ''.ext'', originalName = ''Name.1x02''\<rparr>" by simp
  from a b f1 f2 f3 show ?thesis by simp
qed

subsection \<open>Numbers written by the generator\<close>

declare nat_digits.simps [simp del]

lemma digit_char:
  assumes "n < 10"
  shows "is_digit (''0123456789'' ! n)" and "digit_value (''0123456789'' ! n) = n"
proof -
  have "list_all (\<lambda>k. is_digit (''0123456789'' ! k) \<and> digit_value (''0123456789'' ! k) = k)
          [0..<10]"
    by code_simp
  with assms show "is_digit (''0123456789'' ! n)" and "digit_value (''0123456789'' ! n) = n"
    by (simp_all add: list_all_iff)
qed

lemma nat_digits_one: "n < 10 \<Longrightarrow> nat_digits n = [''0123456789'' ! n]"
  by (simp add: nat_digits.simps [of n])

lemma nat_digits_two:
  assumes "10 \<le> n" and "n < 100"
  shows "nat_digits n = [''0123456789'' ! (n div 10), ''0123456789'' ! (n mod 10)]"
proof -
  from assms have "n div 10 < 10" by simp
  then show ?thesis using assms(1) by (simp add: nat_digits.simps [of n] nat_digits_one)
qed

lemma pad2_digits:
  assumes "0 \<le> i" and "i \<le> 99"
  shows "pad2 (Some i) = [''0123456789'' ! (nat i div 10), ''0123456789'' ! (nat i mod 10)]"
proof (cases "i < 10")
  case True
  with assms(1) have "nat i < 10" by simp
  then show ?thesis using True assms(1) by (simp add: pad2_def number_text_def nat_digits_one)
next
  case False
  with assms have "10 \<le> nat i" "nat i < 100" by simp_all
  from nat_digits_two [OF this] False assms(1) show ?thesis
    by (simp add: pad2_def number_text_def)
qed

lemma digits_value_two: "digits_value [a, b] = 10 * digit_value a + digit_value b"
  by (simp add: digits_value_def)

lemma pad2_group:
  assumes "0 \<le> i" and "i \<le> 99"
  shows "digit_group (pad2 (Some i))" and "length (pad2 (Some i)) = 2"
    and "\<forall>c\<in>set (pad2 (Some i)). is_digit c" and "parseInt (pad2 (Some i)) = Some i"
proof -
  let ?a = "''0123456789'' ! (nat i div 10)" and ?b = "''0123456789'' ! (nat i mod 10)"
  from assms have lt: "nat i div 10 < 10" "nat i mod 10 < 10" by simp_all
  note p = pad2_digits [OF assms]
  show dig: "\<forall>c\<in>set (pad2 (Some i)). is_digit c"
    using digit_char(1) [OF lt(1)] digit_char(1) [OF lt(2)] by (simp add: p)
  show "length (pad2 (Some i)) = 2" by (simp add: p)
  then show "digit_group (pad2 (Some i))" using dig by (auto simp: digit_group_def)
  have "digits_value (pad2 (Some i)) = nat i"
    using digit_char(2) [OF lt(1)] digit_char(2) [OF lt(2)] by (simp add: p digits_value_two)
  moreover have "pad2 (Some i) \<noteq> []" by (simp add: p)
  ultimately show "parseInt (pad2 (Some i)) = Some i"
    using parseInt_digits [OF _ dig] assms(1) by simp
qed

lemma digits_value_four:
  "digits_value [p, q, a, b] =
   1000 * digit_value p + 100 * digit_value q + 10 * digit_value a + digit_value b"
  by (simp add: digits_value_def)

lemma digit_value_known:
  "digit_value CHR ''1'' = 1" "digit_value CHR ''9'' = 9"
  "digit_value CHR ''2'' = 2" "digit_value CHR ''0'' = 0"
  "is_digit CHR ''1''" "is_digit CHR ''9''" "is_digit CHR ''2''" "is_digit CHR ''0''"
  by (simp_all add: digit_value_def is_digit_def)

lemma nat_digits_century: "nat_digits 19 = ''19''" "nat_digits 20 = ''20''"
  by code_simp+

lemma year_digits:
  assumes "1900 \<le> n" and "n \<le> 2099"
  shows "\<exists>p q a b. nat_digits n = [p, q, a, b] \<and>
           ([p, q] = ''19'' \<or> [p, q] = ''20'') \<and> is_digit a \<and> is_digit b \<and>
           1000 * digit_value p + 100 * digit_value q + 10 * digit_value a + digit_value b = n"
proof -
  define a where "a = ''0123456789'' ! (n div 10 mod 10)"
  define b where "b = ''0123456789'' ! (n mod 10)"
  have lt: "n div 10 mod 10 < 10" "n mod 10 < 10" by simp_all
  have a: "is_digit a" "digit_value a = n div 10 mod 10"
    unfolding a_def using digit_char [OF lt(1)] by blast+
  have b: "is_digit b" "digit_value b = n mod 10"
    unfolding b_def using digit_char [OF lt(2)] by blast+
  have big: "\<not> n < 10" "\<not> n div 10 < 10" using assms by simp_all
  have hundred: "n div 10 div 10 = n div 100" by (simp add: div_mult2_eq [symmetric])
  have step1: "nat_digits n = nat_digits (n div 10) @ [b]"
    unfolding b_def by (subst nat_digits.simps) (simp add: big)
  have step2: "nat_digits (n div 10) = nat_digits (n div 100) @ [a]"
    unfolding a_def by (subst nat_digits.simps) (simp add: big hundred)
  have shape: "nat_digits n = nat_digits (n div 100) @ [a, b]"
    by (simp add: step1 step2)
  have low: "n mod 100 = 10 * (n div 10 mod 10) + n mod 10"
    using mod_mult2_eq [of n 10 10] by simp
  have whole: "n = 100 * (n div 100) + n mod 100" by simp
  have "19 \<le> n div 100" using assms(1) by (simp add: le_div_geq)
  moreover have "n div 100 \<le> 20" using assms(2) div_le_mono [of n 2099 100] by simp
  ultimately have "n div 100 = 19 \<or> n div 100 = 20" by linarith
  then show ?thesis
  proof
    assume h: "n div 100 = 19"
    then have "nat_digits n = [CHR ''1'', CHR ''9'', a, b]"
      by (simp add: shape nat_digits_century)
    moreover have "1000 * digit_value CHR ''1'' + 100 * digit_value CHR ''9'' +
                   10 * digit_value a + digit_value b = n"
      unfolding digit_value_known a(2) b(2) using h low whole by linarith
    ultimately show ?thesis using a(1) b(1)
      by (intro exI [of _ "CHR ''1''"] exI [of _ "CHR ''9''"] exI [of _ a] exI [of _ b]) simp
  next
    assume h: "n div 100 = 20"
    then have "nat_digits n = [CHR ''2'', CHR ''0'', a, b]"
      by (simp add: shape nat_digits_century)
    moreover have "1000 * digit_value CHR ''2'' + 100 * digit_value CHR ''0'' +
                   10 * digit_value a + digit_value b = n"
      unfolding digit_value_known a(2) b(2) using h low whole by linarith
    ultimately show ?thesis using a(1) b(1)
      by (intro exI [of _ "CHR ''2''"] exI [of _ "CHR ''0''"] exI [of _ a] exI [of _ b]) simp
  qed
qed

lemma year_text:
  assumes "1900 \<le> y" and "y \<le> 2099"
  shows "year_group (number_text y)" and "parseInt (number_text y) = Some y"
proof -
  from assms have n: "1900 \<le> nat y" "nat y \<le> 2099" by simp_all
  from year_digits [OF n] obtain p q a b where
    d: "nat_digits (nat y) = [p, q, a, b]"
    and pq: "[p, q] = ''19'' \<or> [p, q] = ''20''"
    and ab: "is_digit a" "is_digit b"
    and v: "1000 * digit_value p + 100 * digit_value q + 10 * digit_value a + digit_value b = nat y"
    by blast
  have t: "number_text y = [p, q, a, b]" using assms(1) d by (simp add: number_text_def)
  from pq have pqd: "is_digit p" "is_digit q" using digit_value_known(5-8) by auto
  show "year_group (number_text y)"
    unfolding year_group_def t using pq ab by auto
  have dig: "\<forall>c\<in>set (number_text y). is_digit c" using pqd ab by (simp add: t)
  have ne: "number_text y \<noteq> []" by (simp add: t)
  have "digits_value (number_text y) = nat y" unfolding t digits_value_four using v .
  with parseInt_digits [OF ne dig] assms(1) show "parseInt (number_text y) = Some y" by simp
qed

subsection \<open>The year token\<close>

lemma century_first:
  "matches (Grp (Alt (Cat (Chr CHR ''1'') (Chr CHR ''9'')) (Cat (Chr CHR ''2'') (Chr CHR ''0''))))
     (''19'' @ r) = [([''19''], r)]"
  "matches (Grp (Alt (Cat (Chr CHR ''1'') (Chr CHR ''9'')) (Cat (Chr CHR ''2'') (Chr CHR ''0''))))
     (''20'' @ r) = [([''20''], r)]"
  by (simp_all add: Chr_def)

lemma movieToken_first:
  assumes "[p, q] = ''19'' \<or> [p, q] = ''20''" and "is_digit a" and "is_digit b"
  shows "\<exists>others. matches movieToken ('' ('' @ [p, q, a, b] @ '')'') =
           ([[p, q, a, b], [p, q]], []) # others"
proof -
  let ?century = "Grp (Alt (Cat (Chr CHR ''1'') (Chr CHR ''9'')) (Cat (Chr CHR ''2'') (Chr CHR ''0'')))"
  let ?y = "[p, q, a, b]"
  have psep: "\<not> is_sep CHR ''(''" by (simp add: is_sep_def)
  obtain o1 where s1: "matches (Greedy is_sep 0 None) ('' ('' @ ?y @ '')'') =
      ([], ''('' @ ?y @ '')'') # o1"
    using separators_first [of "'' ''" "''('' @ ?y @ '')''"] psep by (auto simp: is_sep_def)
  have pne: "p \<noteq> CHR ''(''" using assms(1) by auto
  have "run_length (\<lambda>c. c = CHR ''('') (Some 1) (''('' @ ?y @ '')'') = length ''(''"
    using pne by (intro run_length_exact) simp_all
  with Greedy_first [of 0 "\<lambda>c. c = CHR ''(''" "Some 1" "''('' @ ?y @ '')''"]
  obtain o2 where s2: "matches (Greedy (\<lambda>c. c = CHR ''('') 0 (Some 1)) (''('' @ ?y @ '')'') =
      ([], ?y @ '')'') # o2"
    by auto
  have c: "matches ?century (?y @ '')'') = [([[p, q]], [a, b] @ '')'')]"
    using assms(1) century_first [of "[a, b] @ '')''"] by auto
  have "run_length is_digit (Some 2) ([a, b] @ '')'') = 2"
    using assms(2,3) run_length_capped [of "[a, b]" is_digit 2 "'')''"] by simp
  with Greedy_first [of 2 is_digit "Some 2" "[a, b] @ '')''"]
  obtain o3 where d: "matches (Greedy is_digit 2 (Some 2)) ([a, b] @ '')'') = ([], '')'') # o3"
    by auto
  from Cat_first [OF c d] obtain o4 where
    "matches (Cat ?century (Greedy is_digit 2 (Some 2))) (?y @ '')'') = ([[p, q]], '')'') # o4"
    by auto
  from Grp_first [OF this] obtain o5 where
    s3: "matches (Grp (Cat ?century (Greedy is_digit 2 (Some 2)))) (?y @ '')'') =
         ([?y, [p, q]], '')'') # o5"
    by auto
  have "run_length (\<lambda>c. c = CHR '')'') (Some 1) ('')'' @ []) = length '')''"
    by (intro run_length_exact) simp_all
  with Greedy_first [of 0 "\<lambda>c. c = CHR '')''" "Some 1" "'')''"]
  obtain o6 where s4: "matches (Greedy (\<lambda>c. c = CHR '')'') 0 (Some 1)) '')'' = ([], []) # o6"
    by auto
  from Cat_first [OF s3 s4] obtain o7 where
    "matches (Cat (Grp (Cat ?century (Greedy is_digit 2 (Some 2))))
       (Greedy (\<lambda>c. c = CHR '')'') 0 (Some 1))) (?y @ '')'') = ([?y, [p, q]], []) # o7"
    by auto
  from Cat_first [OF s2 this] obtain o8 where
    "matches (Cat (Greedy (\<lambda>c. c = CHR ''('') 0 (Some 1))
       (Cat (Grp (Cat ?century (Greedy is_digit 2 (Some 2))))
         (Greedy (\<lambda>c. c = CHR '')'') 0 (Some 1)))) (''('' @ ?y @ '')'') = ([?y, [p, q]], []) # o8"
    by auto
  from Cat_first [OF s1 this] show ?thesis unfolding movieToken_def by auto
qed

subsection \<open>Characters of a normalized title\<close>

lemma set_replace_runs:
  "c \<in> set (replace_runs P s) \<Longrightarrow> c = CHR '' '' \<or> (c \<in> set s \<and> \<not> P c)"
proof (induction P s rule: replace_runs.induct)
  case (1 P)
  then show ?case by simp
next
  case (2 P x xs)
  show ?case
  proof (cases "P x")
    case True
    with 2(3) have "c = CHR '' '' \<or> c \<in> set (replace_runs P (dropWhile P xs))" by simp
    with 2(1) [OF True] show ?thesis using set_dropWhileD [of c P xs] by auto
  next
    case False
    with 2(3) have "c = x \<or> c \<in> set (replace_runs P xs)" by simp
    with 2(2) [OF False] False show ?thesis by auto
  qed
qed

lemma set_trim: "c \<in> set (trim s) \<Longrightarrow> c \<in> set s"
  unfolding trim_def by (metis set_dropWhileD set_rev)

lemma cleanTitle_chars:
  assumes "c \<in> set (cleanTitle raw)"
  shows "c = CHR '' '' \<or> (c \<in> set raw \<and> \<not> is_space c \<and> c \<noteq> CHR ''.'')"
proof -
  let ?a = "replace_runs (\<lambda>c. c \<in> {CHR ''.'', CHR ''_''}) raw"
  let ?b = "replace_runs (\<lambda>c. c = CHR ''-'') ?a"
  from assms have "c \<in> set (replace_runs is_space ?b)"
    unfolding cleanTitle_def by (rule set_trim)
  then have "c = CHR '' '' \<or> (c \<in> set ?b \<and> \<not> is_space c)" by (rule set_replace_runs)
  moreover have "c \<in> set ?b \<Longrightarrow> c = CHR '' '' \<or> c \<in> set ?a"
    using set_replace_runs [of c "\<lambda>c. c = CHR ''-''" ?a] by blast
  moreover have "c \<in> set ?a \<Longrightarrow> c = CHR '' '' \<or> (c \<in> set raw \<and> c \<noteq> CHR ''.'')"
    using set_replace_runs [of c "\<lambda>c. c \<in> {CHR ''.'', CHR ''_''}" raw] by blast
  ultimately show ?thesis by blast
qed

lemma set_join_with:
  "c \<in> set (join_with sep ws) \<Longrightarrow> c \<in> set sep \<or> (\<exists>w\<in>set ws. c \<in> set w)"
  by (induction sep ws rule: join_with.induct) auto

lemma set_split_on:
  "w \<in> set (split_on d s) \<Longrightarrow> c \<in> set w \<Longrightarrow> c \<in> set s"
proof (induction s arbitrary: w)
  case Nil
  then show ?case by simp
next
  case (Cons x xs)
  show ?case
  proof (cases "x = d")
    case True
    with Cons.prems have "w = [] \<or> w \<in> set (split_on d xs)" by simp
    with Cons.IH Cons.prems(2) show ?thesis by auto
  next
    case False
    show ?thesis
    proof (cases "split_on d xs")
      case Nil
      with False Cons.prems show ?thesis by simp
    next
      case (Cons v vs)
      with False Cons.prems(1) have "w = x # v \<or> w \<in> set vs" by simp
      then show ?thesis
      proof
        assume "w = x # v"
        with Cons.prems(2) have "c = x \<or> c \<in> set v" by simp
        moreover have "v \<in> set (split_on d xs)" using Cons by simp
        ultimately show ?thesis using Cons.IH by auto
      next
        assume "w \<in> set vs"
        then have "w \<in> set (split_on d xs)" using Cons by simp
        with Cons.IH Cons.prems(2) show ?thesis by auto
      qed
    qed
  qed
qed

lemma toUpperCase_cases:
  "toUpperCase c = c \<or> toUpperCase c \<in> set ''ABCDEFGHIJKLMNOPQRSTUVWXYZ''"
proof (cases "map_of (zip ''abcdefghijklmnopqrstuvwxyz'' ''ABCDEFGHIJKLMNOPQRSTUVWXYZ'') c")
  case None
  then show ?thesis by (simp only: toUpperCase_def option.case) simp
next
  case (Some u)
  then have "(c, u) \<in> set (zip ''abcdefghijklmnopqrstuvwxyz'' ''ABCDEFGHIJKLMNOPQRSTUVWXYZ'')"
    by (rule map_of_SomeD)
  then have "u \<in> set ''ABCDEFGHIJKLMNOPQRSTUVWXYZ''" by (rule set_zip_rightD)
  moreover have "toUpperCase c = u" using Some by (simp only: toUpperCase_def option.case)
  ultimately show ?thesis by simp
qed

lemma capital_plain:
  assumes "c \<in> set ''ABCDEFGHIJKLMNOPQRSTUVWXYZ''"
  shows "c \<noteq> CHR ''.''" and "dot c"
  using assms by (auto simp: dot_def is_line_terminator_def)

lemma titleCase_chars:
  assumes "c \<in> set (titleCase s)"
  shows "c = CHR '' '' \<or> c \<in> set s \<or> (\<exists>x\<in>set s. c = toUpperCase x)"
proof -
  let ?f = "\<lambda>w. case w of [] \<Rightarrow> w | c # cs \<Rightarrow> toUpperCase c # cs"
  from assms set_join_with [of c "'' ''" "map ?f (split_on CHR '' '' s)"]
  have "c = CHR '' '' \<or> (\<exists>w\<in>set (split_on CHR '' '' s). c \<in> set (?f w))"
    unfolding titleCase_def by auto
  then show ?thesis
  proof
    assume "c = CHR '' ''" then show ?thesis by simp
  next
    assume "\<exists>w\<in>set (split_on CHR '' '' s). c \<in> set (?f w)"
    then obtain w where w: "w \<in> set (split_on CHR '' '' s)" "c \<in> set (?f w)" by blast
    show ?thesis
    proof (cases w)
      case Nil
      with w(2) show ?thesis by simp
    next
      case (Cons x xs)
      with w(2) have "c = toUpperCase x \<or> c \<in> set xs" by simp
      moreover have "x \<in> set s" using set_split_on [OF w(1), of x] Cons by simp
      moreover have "c \<in> set xs \<Longrightarrow> c \<in> set s" using set_split_on [OF w(1), of c] Cons by simp
      ultimately show ?thesis by blast
    qed
  qed
qed

lemma space_plain: "CHR '' '' \<noteq> CHR ''.''" "dot CHR '' ''"
  by (simp_all add: dot_def is_line_terminator_def)

lemma not_space_dot: "\<not> is_space c \<Longrightarrow> dot c"
  by (auto simp: dot_def is_line_terminator_def is_space_def)

lemma normalized_chars:
  assumes "titleCase (cleanTitle t) = t" and "c \<in> set t"
  shows "c \<noteq> CHR ''.''" and "dot c"
proof -
  have clean: "x \<noteq> CHR ''.'' \<and> dot x" if "x \<in> set (cleanTitle t)" for x
    using cleanTitle_chars [OF that] space_plain not_space_dot by blast
  from assms have "c \<in> set (titleCase (cleanTitle t))" by simp
  from titleCase_chars [OF this]
  have "c \<noteq> CHR ''.'' \<and> dot c"
  proof (elim disjE bexE)
    assume "c = CHR '' ''" then show ?thesis using space_plain by simp
  next
    assume "c \<in> set (cleanTitle t)" then show ?thesis by (rule clean)
  next
    fix x assume x: "x \<in> set (cleanTitle t)" "c = toUpperCase x"
    from toUpperCase_cases [of x] show ?thesis
    proof
      assume "toUpperCase x = x" with x clean [of x] show ?thesis by simp
    next
      assume "toUpperCase x \<in> set ''ABCDEFGHIJKLMNOPQRSTUVWXYZ''"
      with x(2) capital_plain [of c] show ?thesis by simp
    qed
  qed
  then show "c \<noteq> CHR ''.''" and "dot c" by simp_all
qed

subsection \<open>Parsing a generated name\<close>

lemma split_generated:
  assumes "stem \<noteq> []" and "CHR ''.'' \<notin> set stem" and "CHR ''/'' \<notin> set stem"
    and "e = [] \<or> (\<exists>x. e = CHR ''.'' # x \<and> CHR ''.'' \<notin> set x \<and> CHR ''/'' \<notin> set x)"
  shows "path_extname (stem @ e) = e" and "path_basename (stem @ e) e = stem"
proof -
  from assms(4) have "path_extname (stem @ e) = e \<and> path_basename (stem @ e) e = stem"
  proof
    assume e: "e = []"
    have "last_component stem = stem" using assms(3) by (rule last_component_plain)
    then show ?thesis using assms(2) e by (simp add: path_extname_def path_basename_def Let_def)
  next
    assume "\<exists>x. e = CHR ''.'' # x \<and> CHR ''.'' \<notin> set x \<and> CHR ''/'' \<notin> set x"
    then obtain x where x: "e = CHR ''.'' # x" "CHR ''.'' \<notin> set x" "CHR ''/'' \<notin> set x" by blast
    have nd: "stem @ CHR ''.'' # x \<noteq> ''..''"
    proof
      assume "stem @ CHR ''.'' # x = ''..''"
      with assms(1) have "hd stem = CHR ''.''" by (cases stem) auto
      with assms(1,2) show False by (cases stem) auto
    qed
    from extname_dotted [OF assms(3,1) nd x(2,3)] basename_dotted [OF assms(3,1) nd x(2,3)] x(1)
    show ?thesis by simp
  qed
  then show "path_extname (stem @ e) = e" and "path_basename (stem @ e) e = stem" by simp_all
qed

lemma parse_as_tv:
  assumes "path_extname full = e" and "path_basename full e = name"
    and "exec tvRegex1 name = Some [w, t, d1, d2]"
  shows "parseFilename full =
         Some \<lparr>mediaType = TV, title = titleCase (cleanTitle t), season = parseInt d1,
               episode = parseInt d2, year = None, ext = e, originalName = name\<rparr>"
  unfolding parseFilename_def Let_def assms by simp

lemma parse_as_movie:
  assumes "path_extname full = e" and "path_basename full e = name"
    and "exec tvRegex1 name = None" and "exec tvRegex2 name = None"
    and "exec movieRegex name = Some [w, t, y, c]"
  shows "parseFilename full =
         Some \<lparr>mediaType = Movie, title = titleCase (cleanTitle t), season = None,
               episode = None, year = parseInt y, ext = e, originalName = name\<rparr>"
  unfolding parseFilename_def Let_def assms by simp

lemma parse_as_fallback:
  assumes "path_extname full = e" and "path_basename full e = name"
    and "exec tvRegex1 name = None" and "exec tvRegex2 name = None"
    and "exec movieRegex name = None" and "titleCase (cleanTitle name) \<noteq> []"
  shows "parseFilename full =
         Some \<lparr>mediaType = Movie, title = titleCase (cleanTitle name), season = None,
               episode = None, year = None, ext = e, originalName = name\<rparr>"
  unfolding parseFilename_def Let_def assms(1-5) using assms(6) by simp

lemma generateFilename_stem:
  "generateFilename r = generateFilename (r\<lparr>ext := []\<rparr>) @ ext r"
  by (simp add: generateFilename_def Let_def)

lemma digits_plain:
  assumes "\<forall>c\<in>set d. is_digit c"
  shows "CHR ''.'' \<notin> set d" and "CHR ''/'' \<notin> set d"
proof -
  have "\<not> is_digit CHR ''.''" "\<not> is_digit CHR ''/''" by (simp_all add: is_digit_def)
  with assms show "CHR ''.'' \<notin> set d" and "CHR ''/'' \<notin> set d" by blast+
qed

lemma exec_tvRegex1_shape:
  assumes "\<forall>c\<in>set t. dot c" and "\<forall>c\<in>set sep. is_sep c"
    and "sc \<in> {CHR ''s'', CHR ''S''}" and "digit_group d1"
    and "ec \<in> {CHR ''e'', CHR ''E''}" and "length d2 = 2" and "\<forall>c\<in>set d2. is_digit c"
    and "first_token tvToken1 (t @ sep @ sc # d1 @ ec # d2) = Some (length t)"
  shows "exec tvRegex1 (t @ sep @ sc # d1 @ ec # d2) =
         Some [t @ sep @ sc # d1 @ ec # d2, t, d1, d2]"
proof -
  let ?name = "t @ sep @ sc # d1 @ ec # d2"
  from tvToken1_first [OF assms(2-7), of "[]"]
  obtain others where tok: "matches tvToken1 (drop (length t) ?name) = ([d1, d2], []) # others"
    by auto
  have dots: "\<forall>c\<in>set (take (length t) ?name). dot c" using assms(1) by simp
  from exec_title_Some [OF assms(8) dots tok] show ?thesis by (simp add: pattern_split)
qed

text \<open>
  C7, as the code has it. Take a record whose title is not empty, is left unchanged by
  the normalizer and has no slash, and whose extension is empty or one dotted suffix. For
  a TV record let season and episode lie between 0 and 99, and let the token that the
  generator writes be the first place in the generated name (without extension) where the
  token of the first TV pattern matches. For a Movie record let no token of the two TV
  patterns match in the generated name, and let the year lie between 1900 and 2099 and be
  the first year token of the name, or let there be no year and no year token. Then
  parsing the generated name gives a record of the same type, title and extension, with
  the same season and episode (TV) or the same year (Movie), and generating from it gives
  the generated name again.
\<close>

theorem generate_parse_generate:
  assumes "title r \<noteq> []" and "titleCase (cleanTitle (title r)) = title r"
    and "CHR ''/'' \<notin> set (title r)"
    and "ext r = [] \<or> (\<exists>x. ext r = CHR ''.'' # x \<and> CHR ''.'' \<notin> set x \<and> CHR ''/'' \<notin> set x)"
    and "stem = generateFilename (r\<lparr>ext := []\<rparr>)"
    and "mediaType r = TV \<longrightarrow>
           (\<exists>s e. season r = Some s \<and> episode r = Some e \<and>
                  0 \<le> s \<and> s \<le> 99 \<and> 0 \<le> e \<and> e \<le> 99) \<and>
           first_token tvToken1 stem = Some (length (title r))"
    and "mediaType r = Movie \<longrightarrow>
           first_token tvToken1 stem = None \<and> first_token tvToken2 stem = None \<and>
           (case year r of
              None \<Rightarrow> first_token movieToken stem = None
            | Some y \<Rightarrow> 1900 \<le> y \<and> y \<le> 2099 \<and>
                        first_token movieToken stem = Some (length (title r)))"
  shows "\<exists>r'. parseFilename (generateFilename r) = Some r' \<and>
              mediaType r' = mediaType r \<and> title r' = title r \<and> ext r' = ext r \<and>
              (mediaType r = TV \<longrightarrow> season r' = season r \<and> episode r' = episode r) \<and>
              (mediaType r = Movie \<longrightarrow> year r' = year r) \<and>
              generateFilename r' = generateFilename r"
proof -
  let ?t = "title r"
  have tdot: "CHR ''.'' \<notin> set ?t" using normalized_chars(1) [OF assms(2)] by blast
  have tdots: "\<forall>c\<in>set ?t. dot c" using normalized_chars(2) [OF assms(2)] by blast
  have full: "generateFilename r = stem @ ext r"
    using generateFilename_stem [of r] assms(5) by simp
  show ?thesis
  proof (cases "mediaType r")
    case TV
    with assms(6) obtain s e where se: "season r = Some s" "episode r = Some e"
      "0 \<le> s" "s \<le> 99" "0 \<le> e" "e \<le> 99"
      and first: "first_token tvToken1 stem = Some (length ?t)" by blast
    let ?d1 = "pad2 (Some s)" and ?d2 = "pad2 (Some e)"
    note g1 = pad2_group [OF se(3,4)]
    note g2 = pad2_group [OF se(5,6)]
    have stem: "stem = ?t @ '' - '' @ CHR ''S'' # ?d1 @ CHR ''E'' # ?d2"
      using TV se(1,2) by (simp add: assms(5) generateFilename_def)
    have sep: "\<forall>c\<in>set '' - ''. is_sep c" by (simp add: is_sep_def)
    have ex: "exec tvRegex1 stem = Some [stem, ?t, ?d1, ?d2]"
      using exec_tvRegex1_shape [OF tdots sep _ g1(1) _ g2(2,3), of "CHR ''S''" "CHR ''E''"] first
      unfolding stem by simp
    have ne: "stem \<noteq> []" using assms(1) by (simp add: stem)
    have nodot: "CHR ''.'' \<notin> set stem"
      using tdot digits_plain(1) [OF g1(3)] digits_plain(1) [OF g2(3)] by (simp add: stem)
    have noslash: "CHR ''/'' \<notin> set stem"
      using assms(3) digits_plain(2) [OF g1(3)] digits_plain(2) [OF g2(3)] by (simp add: stem)
    note sp = split_generated [OF ne nodot noslash assms(4)]
    let ?r' = "\<lparr>mediaType = TV, title = titleCase (cleanTitle ?t), season = parseInt ?d1,
                 episode = parseInt ?d2, year = None, ext = ext r, originalName = stem\<rparr>"
    have p: "parseFilename (generateFilename r) = Some ?r'"
      unfolding full by (rule parse_as_tv [OF sp ex])
    have "generateFilename ?r' = generateFilename r"
      using TV se(1,2) by (simp add: generateFilename_def assms(2) g1(4) g2(4))
    with p TV se(1,2) show ?thesis by (simp add: assms(2) g1(4) g2(4))
  next
    case Movie
    with assms(7) have no1: "first_token tvToken1 stem = None"
      and no2: "first_token tvToken2 stem = None"
      and yr: "case year r of
              None \<Rightarrow> first_token movieToken stem = None
            | Some y \<Rightarrow> 1900 \<le> y \<and> y \<le> 2099 \<and>
                        first_token movieToken stem = Some (length ?t)"
      by simp_all
    have e1: "exec tvRegex1 stem = None"
      using exec_title_None [OF no1, of dot] by (simp add: pattern_split)
    have e2: "exec tvRegex2 stem = None"
      using exec_title_None [OF no2, of dot] by (simp add: pattern_split)
    show ?thesis
    proof (cases "year r")
      case None
      with yr have no3: "first_token movieToken stem = None" by simp
      have e3: "exec movieRegex stem = None"
        using exec_title_None [OF no3, of dot] by (simp add: pattern_split)
      have stem: "stem = ?t" using Movie None by (simp add: assms(5) generateFilename_def)
      note sp = split_generated [OF assms(1) tdot assms(3,4)]
      have cl: "titleCase (cleanTitle ?t) \<noteq> []" using assms(1,2) by simp
      let ?r' = "\<lparr>mediaType = Movie, title = titleCase (cleanTitle ?t), season = None,
                   episode = None, year = None, ext = ext r, originalName = ?t\<rparr>"
      have p: "parseFilename (generateFilename r) = Some ?r'"
        unfolding full stem
        by (rule parse_as_fallback [OF sp e1 [unfolded stem] e2 [unfolded stem] e3 [unfolded stem] cl])
      have "generateFilename ?r' = generateFilename r"
        using Movie None by (simp add: generateFilename_def assms(2))
      with p Movie None show ?thesis by (simp add: assms(2))
    next
      case (Some y)
      with yr have y: "1900 \<le> y" "y \<le> 2099"
        and first: "first_token movieToken stem = Some (length ?t)" by simp_all
      from y have n: "1900 \<le> nat y" "nat y \<le> 2099" by simp_all
      from year_digits [OF n] obtain p q a b where
        d: "nat_digits (nat y) = [p, q, a, b]"
        and pq: "[p, q] = ''19'' \<or> [p, q] = ''20''"
        and ab: "is_digit a" "is_digit b" by blast
      have yt: "number_text y = [p, q, a, b]" using y(1) d by (simp add: number_text_def)
      have stem: "stem = ?t @ '' ('' @ [p, q, a, b] @ '')''"
        using Movie Some y(1) yt by (simp add: assms(5) generateFilename_def)
      from movieToken_first [OF pq ab]
      obtain others where
        tok: "matches movieToken (drop (length ?t) stem) = ([[p, q, a, b], [p, q]], []) # others"
        unfolding stem by auto
      have dots: "\<forall>c\<in>set (take (length ?t) stem). dot c" using tdots by (simp add: stem)
      from exec_title_Some [OF first dots tok]
      have e3: "exec movieRegex stem = Some [stem, ?t, [p, q, a, b], [p, q]]"
        by (simp add: pattern_split stem)
      have pqd: "is_digit p" "is_digit q" using pq digit_value_known(5-8) by auto
      have ydig: "\<forall>c\<in>set [p, q, a, b]. is_digit c" using pqd ab by simp
      have ne: "stem \<noteq> []" by (simp add: stem)
      have nodot: "CHR ''.'' \<notin> set stem"
        using tdot digits_plain(1) [OF ydig] by (simp add: stem)
      have noslash: "CHR ''/'' \<notin> set stem"
        using assms(3) digits_plain(2) [OF ydig] by (simp add: stem)
      note sp = split_generated [OF ne nodot noslash assms(4)]
      have py: "parseInt [p, q, a, b] = Some y" using year_text(2) [OF y] yt by simp
      let ?r' = "\<lparr>mediaType = Movie, title = titleCase (cleanTitle ?t), season = None,
                   episode = None, year = parseInt [p, q, a, b], ext = ext r,
                   originalName = stem\<rparr>"
      have p: "parseFilename (generateFilename r) = Some ?r'"
        unfolding full by (rule parse_as_movie [OF sp e1 e2 e3])
      have "generateFilename ?r' = generateFilename r"
        using Movie Some y(1) by (simp add: generateFilename_def assms(2) py)
      with p Movie Some show ?thesis by (simp add: assms(2) py)
    qed
  qed
qed

text \<open>
  C7 as stated fails for normalized records whose generated name holds an earlier or a
  longer token: a title that ends with a year, an episode number of three digits.
\<close>

theorem generate_parse_generate_not_fixed:
  "titleCase (cleanTitle (title example_sequel)) = title example_sequel \<and>
   generateFilename example_sequel = ''Blade Runner 2049 (2017).mkv'' \<and>
   parseFilename (generateFilename example_sequel) =
     Some \<lparr>mediaType = Movie, title = ''Blade Runner'', season = None, episode = None,
           year = Some 2049, ext = ''.mkv'', originalName = ''Blade Runner 2049 (2017)''\<rparr> \<and>
   generateFilename
     \<lparr>mediaType = Movie, title = ''Blade Runner'', season = None, episode = None,
      year = Some 2049, ext = ''.mkv'', originalName = ''Blade Runner 2049 (2017)''\<rparr> =
     ''Blade Runner (2049).mkv'' \<and>
   generateFilename example_late_episode = ''Show - S01E100.mkv'' \<and>
   parseFilename (generateFilename example_late_episode) =
     Some \<lparr>mediaType = TV, title = ''Show'', season = Some 1, episode = Some 10,
           year = None, ext = ''.mkv'', originalName = ''Show - S01E100''\<rparr>"
  by code_simp

theorem generate_parse_generate_witness:
  "generateFilename example_episode = ''Show Name - S01E02.mkv'' \<and>
   generateFilename (the (parseFilename (generateFilename example_episode))) =
     generateFilename example_episode \<and>
   season (the (parseFilename (generateFilename example_episode))) = Some 1 \<and>
   episode (the (parseFilename (generateFilename example_episode))) = Some 2 \<and>
   title (the (parseFilename (generateFilename example_episode))) = ''Show Name'' \<and>
   generateFilename example_movie = ''Movie Name (2007).mkv'' \<and>
   generateFilename (the (parseFilename (generateFilename example_movie))) =
     generateFilename example_movie \<and>
   generateFilename example_plain = ''Randomfile.txt'' \<and>
   generateFilename (the (parseFilename (generateFilename example_plain))) =
     generateFilename example_plain"
proof -
  have fixed: "generateFilename (the (parseFilename (generateFilename r))) = generateFilename r \<and>
             title (the (parseFilename (generateFilename r))) = title r \<and>
             (mediaType r = TV \<longrightarrow>
                season (the (parseFilename (generateFilename r))) = season r \<and>
                episode (the (parseFilename (generateFilename r))) = episode r)"
    if "\<exists>r'. parseFilename (generateFilename r) = Some r' \<and>
              mediaType r' = mediaType r \<and> title r' = title r \<and> ext r' = ext r \<and>
              (mediaType r = TV \<longrightarrow> season r' = season r \<and> episode r' = episode r) \<and>
              (mediaType r = Movie \<longrightarrow> year r' = year r) \<and>
              generateFilename r' = generateFilename r" for r
    using that by auto
  have ext_ok: "ext r = [] \<or> (\<exists>x. ext r = CHR ''.'' # x \<and> CHR ''.'' \<notin> set x \<and> CHR ''/'' \<notin> set x)"
    if "r = example_episode \<or> r = example_movie \<or> r = example_plain" for r
    using that by (auto simp: example_episode_def example_movie_def example_plain_def)
  have e1: "title example_episode \<noteq> []"
    "titleCase (cleanTitle (title example_episode)) = title example_episode"
    "CHR ''/'' \<notin> set (title example_episode)"
    "''Show Name - S01E02'' = generateFilename (example_episode\<lparr>ext := []\<rparr>)"
    by code_simp+
  have e1tv: "mediaType example_episode = TV \<longrightarrow>
           (\<exists>s e. season example_episode = Some s \<and> episode example_episode = Some e \<and>
                  0 \<le> s \<and> s \<le> 99 \<and> 0 \<le> e \<and> e \<le> 99) \<and>
           first_token tvToken1 ''Show Name - S01E02'' = Some (length (title example_episode))"
  proof -
    have "first_token tvToken1 ''Show Name - S01E02'' = Some (length (title example_episode))"
      by code_simp
    then show ?thesis by (simp add: example_episode_def)
  qed
  have e1mv: "mediaType example_episode = Movie \<longrightarrow>
           first_token tvToken1 ''Show Name - S01E02'' = None \<and>
           first_token tvToken2 ''Show Name - S01E02'' = None \<and>
           (case year example_episode of
              None \<Rightarrow> first_token movieToken ''Show Name - S01E02'' = None
            | Some y \<Rightarrow> 1900 \<le> y \<and> y \<le> 2099 \<and>
                        first_token movieToken ''Show Name - S01E02'' =
                          Some (length (title example_episode)))"
    by (simp add: example_episode_def)
  note i1 = fixed [OF generate_parse_generate [OF e1(1-3) ext_ok e1(4) e1tv e1mv]]
  have e2: "title example_movie \<noteq> []"
    "titleCase (cleanTitle (title example_movie)) = title example_movie"
    "CHR ''/'' \<notin> set (title example_movie)"
    "''Movie Name (2007)'' = generateFilename (example_movie\<lparr>ext := []\<rparr>)"
    by code_simp+
  have e2tv: "mediaType example_movie = TV \<longrightarrow>
           (\<exists>s e. season example_movie = Some s \<and> episode example_movie = Some e \<and>
                  0 \<le> s \<and> s \<le> 99 \<and> 0 \<le> e \<and> e \<le> 99) \<and>
           first_token tvToken1 ''Movie Name (2007)'' = Some (length (title example_movie))"
    by (simp add: example_movie_def)
  have e2mv: "mediaType example_movie = Movie \<longrightarrow>
           first_token tvToken1 ''Movie Name (2007)'' = None \<and>
           first_token tvToken2 ''Movie Name (2007)'' = None \<and>
           (case year example_movie of
              None \<Rightarrow> first_token movieToken ''Movie Name (2007)'' = None
            | Some y \<Rightarrow> 1900 \<le> y \<and> y \<le> 2099 \<and>
                        first_token movieToken ''Movie Name (2007)'' =
                          Some (length (title example_movie)))"
  proof -
    have "first_token tvToken1 ''Movie Name (2007)'' = None"
      "first_token tvToken2 ''Movie Name (2007)'' = None"
      "first_token movieToken ''Movie Name (2007)'' = Some (length (title example_movie))"
      by code_simp+
    then show ?thesis by (simp add: example_movie_def)
  qed
  note i2 = fixed [OF generate_parse_generate [OF e2(1-3) ext_ok e2(4) e2tv e2mv]]
  have e3: "title example_plain \<noteq> []"
    "titleCase (cleanTitle (title example_plain)) = title example_plain"
    "CHR ''/'' \<notin> set (title example_plain)"
    "''Randomfile'' = generateFilename (example_plain\<lparr>ext := []\<rparr>)"
    by code_simp+
  have e3tv: "mediaType example_plain = TV \<longrightarrow>
           (\<exists>s e. season example_plain = Some s \<and> episode example_plain = Some e \<and>
                  0 \<le> s \<and> s \<le> 99 \<and> 0 \<le> e \<and> e \<le> 99) \<and>
           first_token tvToken1 ''Randomfile'' = Some (length (title example_plain))"
    by (simp add: example_plain_def)
  have e3mv: "mediaType example_plain = Movie \<longrightarrow>
           first_token tvToken1 ''Randomfile'' = None \<and>
           first_token tvToken2 ''Randomfile'' = None \<and>
           (case year example_plain of
              None \<Rightarrow> first_token movieToken ''Randomfile'' = None
            | Some y \<Rightarrow> 1900 \<le> y \<and> y \<le> 2099 \<and>
                        first_token movieToken ''Randomfile'' =
                          Some (length (title example_plain)))"
  proof -
    have "first_token tvToken1 ''Randomfile'' = None"
      "first_token tvToken2 ''Randomfile'' = None"
      "first_token movieToken ''Randomfile'' = None"
      by code_simp+
    then show ?thesis by (simp add: example_plain_def)
  qed
  note i3 = fixed [OF generate_parse_generate [OF e3(1-3) ext_ok e3(4) e3tv e3mv]]
  have g: "generateFilename example_episode = ''Show Name - S01E02.mkv''"
    "generateFilename example_movie = ''Movie Name (2007).mkv''"
    "generateFilename example_plain = ''Randomfile.txt''"
    by code_simp+
  have f: "mediaType example_episode = TV" "season example_episode = Some 1"
    "episode example_episode = Some 2" "title example_episode = ''Show Name''"
    by (simp_all add: example_episode_def)
  from i1 i2 i3 show ?thesis by (simp only: g f) simp
qed

end
